theory Spec2Isabelle
  imports Complex_Main
begin

section \<open>Data model\<close>

text \<open>
  The enumerations of \<^verbatim>\<open>api/api_v1/endpoints/tasks.py\<close> and
  \<^verbatim>\<open>api/api_v1/endpoints/agents.py\<close>.
\<close>

datatype TaskType = CODE | DESIGN | MARKETING

datatype TaskPriority = LOW | MEDIUM | HIGH

datatype TaskStatus = PENDING | IN_PROGRESS | VERIFYING | COMPLETED | FAILED

datatype AgentType = CODING | DESIGNER | MARKETER

datatype AgentStatus = IDLE | BUSY | ERROR | OFFLINE

text \<open>
  \<^verbatim>\<open>AgentResult\<close> of \<^verbatim>\<open>agents/base.py\<close>. Python floats are modelled as
  rationals; the dictionaries \<^verbatim>\<open>output\<close> (written \<open>output_dict\<close>) and
  \<^verbatim>\<open>metadata\<close> are association lists from keys to text.
\<close>

record AgentResult =
  success :: bool
  output_dict :: "(string \<times> string) list"
  error :: "string option"
  tokens_used :: int
  cost :: rat
  metadata :: "(string \<times> string) list"

text \<open>
  \<^verbatim>\<open>TaskManager\<close> of \<^verbatim>\<open>core/orchestrator.py\<close>. The fields \<^verbatim>\<open>type\<close>,
  \<^verbatim>\<open>error\<close> and \<^verbatim>\<open>cost\<close> are written \<open>task_type\<close>, \<open>task_error\<close> and
  \<open>task_cost\<close>, since \<^verbatim>\<open>AgentResult\<close> has fields of the same names. The two
  timestamps \<^verbatim>\<open>created_at\<close> and \<^verbatim>\<open>updated_at\<close> read the wall clock and are left
  out of the record.
\<close>

record TaskManager =
  task_id :: string
  task_type :: TaskType
  priority :: TaskPriority
  status :: TaskStatus
  progress :: rat
  result :: "AgentResult option"
  task_error :: "string option"
  task_cost :: rat

text \<open>
  \<^verbatim>\<open>BaseAgent\<close> of \<^verbatim>\<open>agents/base.py\<close>; \<^verbatim>\<open>status\<close> and \<^verbatim>\<open>total_cost\<close> are
  written \<open>agent_status\<close> and \<open>agent_total_cost\<close>.
\<close>

record BaseAgent =
  agent_id :: string
  agent_type :: AgentType
  agent_status :: AgentStatus
  current_task_id :: "string option"
  total_tasks_completed :: nat
  agent_total_cost :: rat
  total_tokens :: int

text \<open>
  \<^verbatim>\<open>Orchestrator\<close>: \<^verbatim>\<open>_agents\<close>, \<^verbatim>\<open>_tasks\<close>, \<^verbatim>\<open>_total_cost\<close> and
  \<^verbatim>\<open>_cost_limit_reached\<close>. The dictionary \<^verbatim>\<open>_agents\<close> has the three task types as
  its keys from construction on, so it is a total function into agent lists. An agent
  object is referred to by its task type and its position in that list (lists are only
  appended to, by \<^verbatim>\<open>_create_agent\<close>).
\<close>

record Orchestrator =
  agents :: "TaskType \<Rightarrow> BaseAgent list"
  tasks :: "string \<rightharpoonup> TaskManager"
  total_cost :: rat
  cost_limit_reached :: bool

datatype exn = ValueError string | KeyError string

section \<open>TaskManager\<close>

definition TaskManager_init :: "string \<Rightarrow> TaskType \<Rightarrow> TaskPriority \<Rightarrow> TaskManager" where
  "TaskManager_init tid ty prio =
     \<lparr>task_id = tid, task_type = ty, priority = prio, status = PENDING, progress = 0,
      result = None, task_error = None, task_cost = 0\<rparr>"

definition update_status :: "TaskManager \<Rightarrow> TaskStatus \<Rightarrow> rat option \<Rightarrow> TaskManager" where
  "update_status t s p =
     (case p of
        None \<Rightarrow> t\<lparr>status := s\<rparr>
      | Some q \<Rightarrow> t\<lparr>status := s, progress := q\<rparr>)"

section \<open>BaseAgent and the agents' task template\<close>

definition BaseAgent_init :: "string \<Rightarrow> AgentType \<Rightarrow> BaseAgent" where
  "BaseAgent_init aid aty =
     \<lparr>agent_id = aid, agent_type = aty, agent_status = IDLE, current_task_id = None,
      total_tasks_completed = 0, agent_total_cost = 0, total_tokens = 0\<rparr>"

definition track_usage :: "BaseAgent \<Rightarrow> int \<Rightarrow> rat \<Rightarrow> BaseAgent" where
  "track_usage a tokens c =
     a\<lparr>total_tokens := total_tokens a + tokens, agent_total_cost := agent_total_cost a + c\<rparr>"

definition agent_update_status :: "BaseAgent \<Rightarrow> AgentStatus \<Rightarrow> BaseAgent" where
  "agent_update_status a s = a\<lparr>agent_status := s\<rparr>"

definition prepare_task :: "BaseAgent \<Rightarrow> string \<Rightarrow> BaseAgent \<times> bool" where
  "prepare_task a tid =
     (if agent_status a \<noteq> IDLE then (a, False)
      else (agent_update_status (a\<lparr>current_task_id := Some tid\<rparr>) BUSY, True))"

definition cleanup_task :: "BaseAgent \<Rightarrow> BaseAgent" where
  "cleanup_task a =
     agent_update_status
       (a\<lparr>current_task_id := None, total_tasks_completed := total_tasks_completed a + 1\<rparr>)
       IDLE"

definition handle_error :: "BaseAgent \<Rightarrow> BaseAgent" where
  "handle_error a = (agent_update_status a ERROR)\<lparr>current_task_id := None\<rparr>"

definition calculate_cost :: "int \<Rightarrow> bool \<Rightarrow> rat" where
  "calculate_cost tokens is_verification =
     of_int tokens * (if is_verification then 2 / 1000 else 1 / 1000)"

text \<open>
  What the generative model does is outside the program. \<open>model_outcome\<close> is what the
  awaited \<^verbatim>\<open>self.model.agenerate\<close> and the parsing after it hand back to
  \<^verbatim>\<open>execute_task\<close>: an exception with its text, or the token count of the response and
  the \<^verbatim>\<open>AgentResult\<close> built from it. \<open>verify_outcome\<close> is the same for
  \<^verbatim>\<open>self.verification_model.agenerate\<close> in \<^verbatim>\<open>validate_result\<close>: an exception, or
  the token count and whether the response text contains \<^verbatim>\<open>VALID\<close>.
\<close>

datatype model_outcome = Raises string | Responds int AgentResult

datatype verify_outcome = VRaises string | VResponds int bool

definition failure_result :: "string \<Rightarrow> AgentResult" where
  "failure_result msg =
     \<lparr>success = False, output_dict = [], error = Some msg, tokens_used = 0, cost = 0,
      metadata = []\<rparr>"

text \<open>
  \<^verbatim>\<open>CodingAgent.execute_task\<close> (the design and marketing agents follow the same
  template) is split at its one suspension point, the awaited model call.
  \<open>execute_task_begin\<close> runs up to it: \<open>Some r\<close> is an early return, \<open>None\<close> means
  the coroutine is suspended in the model call. \<open>execute_task_resume\<close> runs from the
  model's outcome to the return.
\<close>

definition execute_task_begin :: "BaseAgent \<Rightarrow> string \<Rightarrow> BaseAgent \<times> AgentResult option" where
  "execute_task_begin a tid =
     (case prepare_task a tid of
        (a', ok) \<Rightarrow>
          if \<not> ok then (a', Some (failure_result ''Agent is busy or unavailable''))
          else (a', None))"

definition execute_task_resume :: "BaseAgent \<Rightarrow> model_outcome \<Rightarrow> BaseAgent \<times> AgentResult" where
  "execute_task_resume a mo =
     (case mo of
        Raises e \<Rightarrow> (handle_error a, failure_result e)
      | Responds tokens r \<Rightarrow>
          (cleanup_task (track_usage a tokens (calculate_cost tokens False)), r))"

text \<open>
  \<^verbatim>\<open>validate_result\<close>, split in the same way. It returns false at once for a
  result that is not a success; the coding agent also returns true at once when the
  result carries no code, while the design and marketing agents always go on to the
  verification model.
\<close>

definition no_code :: "AgentResult \<Rightarrow> bool" where
  "no_code r = (case map_of (output_dict r) ''code'' of None \<Rightarrow> True | Some c \<Rightarrow> c = [])"

definition validate_result_begin :: "BaseAgent \<Rightarrow> AgentResult \<Rightarrow> bool option" where
  "validate_result_begin a r =
     (if \<not> success r then Some False
      else if agent_type a = CODING \<and> no_code r then Some True
      else None)"

definition validate_result_resume :: "BaseAgent \<Rightarrow> verify_outcome \<Rightarrow> BaseAgent \<times> bool" where
  "validate_result_resume a vo =
     (case vo of
        VRaises e \<Rightarrow> (handle_error a, False)
      | VResponds tokens is_valid \<Rightarrow>
          (track_usage a tokens (calculate_cost tokens True), is_valid))"

section \<open>Orchestrator\<close>

definition Orchestrator_init :: Orchestrator where
  "Orchestrator_init =
     \<lparr>agents = (\<lambda>ty. []), tasks = Map.empty, total_cost = 0, cost_limit_reached = False\<rparr>"

definition agent_class :: "TaskType \<Rightarrow> AgentType" where
  "agent_class ty = (case ty of CODE \<Rightarrow> CODING | DESIGN \<Rightarrow> DESIGNER | MARKETING \<Rightarrow> MARKETER)"

text \<open>
  \<^verbatim>\<open>_create_agent\<close>; \<open>init_ok\<close> is what the agent's \<^verbatim>\<open>initialize\<close> returned, and
  \<^verbatim>\<open>initialize\<close> sets the status to \<^verbatim>\<open>error\<close> before it returns false.
\<close>

definition create_agent :: "Orchestrator \<Rightarrow> TaskType \<Rightarrow> string \<Rightarrow> bool \<Rightarrow> Orchestrator \<times> bool" where
  "create_agent orc ty aid init_ok =
     (if init_ok
      then (orc\<lparr>agents := (agents orc)(ty := agents orc ty @ [BaseAgent_init aid (agent_class ty)])\<rparr>,
            True)
      else (orc, False))"

definition initialize :: "Orchestrator \<Rightarrow> bool \<Rightarrow> bool \<Rightarrow> bool \<Rightarrow> Orchestrator" where
  "initialize orc ok1 ok2 ok3 =
     fst (create_agent
            (fst (create_agent
                    (fst (create_agent orc CODE ''coding-agent-1'' ok1))
                    DESIGN ''design-agent-1'' ok2))
            MARKETING ''marketing-agent-1'' ok3)"

text \<open>
  \<^verbatim>\<open>submit_task\<close>: \<open>tid\<close> is the identifier that \<^verbatim>\<open>uuid4\<close> drew. Scheduling the
  background coroutine is the business of the system model below.
\<close>

definition submit_task :: "Orchestrator \<Rightarrow> string \<Rightarrow> TaskType \<Rightarrow> TaskPriority \<Rightarrow> Orchestrator \<times> string" where
  "submit_task orc tid ty prio =
     (orc\<lparr>tasks := (tasks orc)(tid \<mapsto> TaskManager_init tid ty prio)\<rparr>, tid)"

record TaskView =
  view_id :: string
  view_type :: TaskType
  view_status :: TaskStatus
  view_progress :: rat
  view_cost :: rat
  view_result :: "(string \<times> string) list option"
  view_error :: "string option"

definition get_task_status :: "Orchestrator \<Rightarrow> string \<Rightarrow> exn + TaskView" where
  "get_task_status orc tid =
     (case tasks orc tid of
        None \<Rightarrow> Inl (ValueError ''Task not found'')
      | Some task \<Rightarrow>
          Inr \<lparr>view_id = tid, view_type = task_type task, view_status = status task,
               view_progress = progress task, view_cost = task_cost task,
               view_result = (case result task of None \<Rightarrow> None | Some r \<Rightarrow> Some (output_dict r)),
               view_error = task_error task\<rparr>)"

definition cancel_task :: "Orchestrator \<Rightarrow> string \<Rightarrow> Orchestrator \<times> bool" where
  "cancel_task orc tid =
     (case tasks orc tid of
        None \<Rightarrow> (orc, False)
      | Some task \<Rightarrow>
          if status task \<in> {COMPLETED, FAILED} then (orc, False)
          else (orc\<lparr>tasks := (tasks orc)(tid \<mapsto>
                  (update_status task FAILED None)\<lparr>task_error := Some ''Task cancelled by user''\<rparr>)\<rparr>,
                True))"

text \<open>
  \<^verbatim>\<open>_get_available_agent\<close>: the loop over the agents of the task type, returning the
  position of the first idle one together with the agent found there.
\<close>

fun first_idle :: "BaseAgent list \<Rightarrow> nat \<Rightarrow> (nat \<times> BaseAgent) option" where
  "first_idle [] i = None"
| "first_idle (a # as) i =
     (if agent_status a = IDLE then Some (i, a) else first_idle as (Suc i))"

definition get_available_agent :: "Orchestrator \<Rightarrow> TaskType \<Rightarrow> (nat \<times> BaseAgent) option" where
  "get_available_agent orc ty = first_idle (agents orc ty) 0"

text \<open>
  \<^verbatim>\<open>_check_cost_limit\<close>; \<open>limit\<close> is \<^verbatim>\<open>settings.COST_LIMIT\<close>, read from the
  environment.
\<close>

definition check_cost_limit :: "rat \<Rightarrow> Orchestrator \<Rightarrow> rat \<Rightarrow> Orchestrator \<times> bool" where
  "check_cost_limit limit orc estimated_cost =
     (if total_cost orc + estimated_cost > limit
      then ((if \<not> cost_limit_reached orc then orc\<lparr>cost_limit_reached := True\<rparr> else orc), False)
      else (orc, True))"

text \<open>
  \<^verbatim>\<open>_process_task\<close> holds references to its task and its agent across its
  suspension points. The helpers below write through such a reference: the task of an
  identifier (tasks are never removed from \<^verbatim>\<open>_tasks\<close>) and the agent at a
  position of a pool.
\<close>

definition modify_task :: "Orchestrator \<Rightarrow> string \<Rightarrow> (TaskManager \<Rightarrow> TaskManager) \<Rightarrow> Orchestrator" where
  "modify_task orc tid f =
     (case tasks orc tid of
        None \<Rightarrow> orc
      | Some t \<Rightarrow> orc\<lparr>tasks := (tasks orc)(tid \<mapsto> f t)\<rparr>)"

definition set_agent :: "Orchestrator \<Rightarrow> TaskType \<Rightarrow> nat \<Rightarrow> BaseAgent \<Rightarrow> Orchestrator" where
  "set_agent orc ty i a = orc\<lparr>agents := (agents orc)(ty := (agents orc ty)[i := a])\<rparr>"

definition fail_task :: "Orchestrator \<Rightarrow> string \<Rightarrow> string option \<Rightarrow> Orchestrator" where
  "fail_task orc tid msg =
     modify_task orc tid (\<lambda>t. (update_status t FAILED None)\<lparr>task_error := msg\<rparr>)"

text \<open>
  Where a lifecycle stands: not yet started, suspended in the model call of
  \<^verbatim>\<open>execute_task\<close> with its agent, suspended in the verification call of
  \<^verbatim>\<open>validate_result\<close> with its agent and the result under validation, or returned.
\<close>

datatype pc = Start | AwaitExec TaskType nat | AwaitValidate TaskType nat AgentResult | Done

text \<open>Lines 185 to 191: the final status write.\<close>

definition finish_task :: "Orchestrator \<Rightarrow> string \<Rightarrow> AgentResult \<Rightarrow> Orchestrator" where
  "finish_task orc tid r =
     (if success r
      then modify_task orc tid (\<lambda>t. (update_status t COMPLETED (Some 1))\<lparr>result := Some r\<rparr>)
      else fail_task orc tid (error r))"

text \<open>Lines 180 to 191, from the value \<^verbatim>\<open>validate_result\<close> returned.\<close>

definition after_validate :: "Orchestrator \<Rightarrow> string \<Rightarrow> AgentResult \<Rightarrow> bool \<Rightarrow> Orchestrator" where
  "after_validate orc tid r is_valid =
     (if \<not> is_valid then fail_task orc tid (Some ''Result validation failed'')
      else finish_task orc tid r)"

text \<open>
  Lines 165 to 191, from the result \<^verbatim>\<open>execute_task\<close> returned, up to the next
  suspension point or the return.
\<close>

definition after_execute :: "rat \<Rightarrow> Orchestrator \<Rightarrow> string \<Rightarrow> TaskType \<Rightarrow> nat \<Rightarrow> BaseAgent \<Rightarrow> AgentResult \<Rightarrow> Orchestrator \<times> pc" where
  "after_execute limit orc tid ty i a r =
     (if success r then
        (let new_cost = total_cost orc + cost r in
         case check_cost_limit limit orc (cost r) of
           (orc1, True) \<Rightarrow>
             (let orc2 = modify_task (orc1\<lparr>total_cost := new_cost\<rparr>) tid (\<lambda>t. t\<lparr>task_cost := cost r\<rparr>);
                  orc3 = modify_task orc2 tid (\<lambda>t. update_status t VERIFYING (Some (8 / 10)))
              in case validate_result_begin a r of
                   Some is_valid \<Rightarrow> (after_validate orc3 tid r is_valid, Done)
                 | None \<Rightarrow> (orc3, AwaitValidate ty i r))
         | (orc1, False) \<Rightarrow> (fail_task orc1 tid (Some ''Cost limit reached''), Done))
      else (finish_task orc tid r, Done))"

text \<open>
  \<^verbatim>\<open>_process_task\<close> from its first line to its first suspension point. \<open>None\<close> is
  the \<^verbatim>\<open>KeyError\<close> of \<^verbatim>\<open>self._tasks[task_id]\<close>, raised outside the
  \<^verbatim>\<open>try\<close>.
\<close>

definition process_start :: "rat \<Rightarrow> Orchestrator \<Rightarrow> string \<Rightarrow> (Orchestrator \<times> pc) option" where
  "process_start limit orc tid =
     (case tasks orc tid of
        None \<Rightarrow> None
      | Some task \<Rightarrow>
          (case get_available_agent orc (task_type task) of
             None \<Rightarrow> Some (fail_task orc tid (Some ''No available agent found''), Done)
           | Some (i, agent) \<Rightarrow>
               (let ty = task_type task;
                    orc1 = modify_task orc tid (\<lambda>t. update_status t IN_PROGRESS (Some (2 / 10)))
                in case execute_task_begin agent tid of
                     (agent1, None) \<Rightarrow> Some (set_agent orc1 ty i agent1, AwaitExec ty i)
                   | (agent1, Some r) \<Rightarrow>
                       Some (after_execute limit (set_agent orc1 ty i agent1) tid ty i agent1 r))))"

text \<open>
  The lifecycle resumed with the outcome of the model call: the rest of
  \<^verbatim>\<open>execute_task\<close>, then lines 165 on.
\<close>

definition process_exec_done :: "rat \<Rightarrow> Orchestrator \<Rightarrow> string \<Rightarrow> TaskType \<Rightarrow> nat \<Rightarrow> model_outcome \<Rightarrow> Orchestrator \<times> pc" where
  "process_exec_done limit orc tid ty i mo =
     (case execute_task_resume (agents orc ty ! i) mo of
        (agent1, r) \<Rightarrow> after_execute limit (set_agent orc ty i agent1) tid ty i agent1 r)"

text \<open>
  The lifecycle resumed with the outcome of the verification call: the rest of
  \<^verbatim>\<open>validate_result\<close>, then lines 180 on.
\<close>

definition process_validate_done :: "Orchestrator \<Rightarrow> string \<Rightarrow> TaskType \<Rightarrow> nat \<Rightarrow> AgentResult \<Rightarrow> verify_outcome \<Rightarrow> Orchestrator" where
  "process_validate_done orc tid ty i r vo =
     (case validate_result_resume (agents orc ty ! i) vo of
        (agent1, is_valid) \<Rightarrow> after_validate (set_agent orc ty i agent1) tid r is_valid)"

text \<open>
  A whole lifecycle with nothing else running in between: \<open>mo\<close> and \<open>vo\<close> are the
  outcomes the two model calls have if the lifecycle gets to them.
\<close>

fun process_rest :: "rat \<Rightarrow> string \<Rightarrow> model_outcome \<Rightarrow> verify_outcome \<Rightarrow> Orchestrator \<times> pc \<Rightarrow> Orchestrator" where
  "process_rest limit tid mo vo (orc, AwaitExec ty i) =
     (case process_exec_done limit orc tid ty i mo of
        (orc1, AwaitValidate ty1 i1 r) \<Rightarrow> process_validate_done orc1 tid ty1 i1 r vo
      | (orc1, _) \<Rightarrow> orc1)"
| "process_rest limit tid mo vo (orc, AwaitValidate ty i r) =
     process_validate_done orc tid ty i r vo"
| "process_rest limit tid mo vo (orc, _) = orc"

definition process_task :: "rat \<Rightarrow> Orchestrator \<Rightarrow> string \<Rightarrow> model_outcome \<Rightarrow> verify_outcome \<Rightarrow> Orchestrator option" where
  "process_task limit orc tid mo vo =
     (case process_start limit orc tid of
        None \<Rightarrow> None
      | Some sp \<Rightarrow> Some (process_rest limit tid mo vo sp))"

section \<open>The event loop\<close>

text \<open>
  \<^verbatim>\<open>submit_task\<close> starts each lifecycle as a background coroutine of one
  single-threaded event loop: coroutines interleave only at the two awaited model
  calls. A system state is the orchestrator together with where each lifecycle stands;
  an event is one uninterrupted stretch of code. \<^verbatim>\<open>uuid4\<close> identifiers are fresh,
  so \<open>Submit\<close> of an identifier already in the registry does not occur; an event
  that resumes a lifecycle which is not waiting for it does not occur either. Both
  leave the state as it is.
\<close>

record System =
  orch :: Orchestrator
  pcs :: "string \<rightharpoonup> pc"

datatype event =
    Submit string TaskType TaskPriority
  | Cancel string
  | Begin string
  | ExecDone string model_outcome
  | ValidateDone string verify_outcome

fun step :: "rat \<Rightarrow> System \<Rightarrow> event \<Rightarrow> System" where
  "step limit s (Submit tid ty prio) =
     (case tasks (orch s) tid of
        Some t \<Rightarrow> s
      | None \<Rightarrow> s\<lparr>orch := fst (submit_task (orch s) tid ty prio), pcs := (pcs s)(tid \<mapsto> Start)\<rparr>)"
| "step limit s (Cancel tid) = s\<lparr>orch := fst (cancel_task (orch s) tid)\<rparr>"
| "step limit s (Begin tid) =
     (case pcs s tid of
        Some Start \<Rightarrow>
          (case process_start limit (orch s) tid of
             None \<Rightarrow> s\<lparr>pcs := (pcs s)(tid \<mapsto> Done)\<rparr>
           | Some (orc, p) \<Rightarrow> s\<lparr>orch := orc, pcs := (pcs s)(tid \<mapsto> p)\<rparr>)
      | _ \<Rightarrow> s)"
| "step limit s (ExecDone tid mo) =
     (case pcs s tid of
        Some (AwaitExec ty i) \<Rightarrow>
          (case process_exec_done limit (orch s) tid ty i mo of
             (orc, p) \<Rightarrow> s\<lparr>orch := orc, pcs := (pcs s)(tid \<mapsto> p)\<rparr>)
      | _ \<Rightarrow> s)"
| "step limit s (ValidateDone tid vo) =
     (case pcs s tid of
        Some (AwaitValidate ty i r) \<Rightarrow>
          s\<lparr>orch := process_validate_done (orch s) tid ty i r vo, pcs := (pcs s)(tid \<mapsto> Done)\<rparr>
      | _ \<Rightarrow> s)"

definition run :: "rat \<Rightarrow> System \<Rightarrow> event list \<Rightarrow> System" where
  "run limit s evs = foldl (step limit) s evs"

text \<open>The system in which nothing has been submitted yet.\<close>

definition System_init :: "Orchestrator \<Rightarrow> System" where
  "System_init orc = \<lparr>orch = orc, pcs = Map.empty\<rparr>"

text \<open>The cost an event brings to the ledger's check.\<close>

fun event_cost :: "event \<Rightarrow> rat" where
  "event_cost (ExecDone tid (Responds tokens r)) = cost r"
| "event_cost e = 0"

section \<open>Invariants of the agent pool\<close>

text \<open>
  What holds of the pool in every state the event loop reaches. Every lifecycle in the
  table belongs to a registered task. A lifecycle suspended in the model call of
  \<^verbatim>\<open>execute_task\<close> refers to an agent of the pool that is not idle, and it is the
  only lifecycle suspended there on that agent. A busy agent has a lifecycle suspended
  in \<^verbatim>\<open>execute_task\<close> on it. A lifecycle suspended in \<^verbatim>\<open>validate_result\<close> refers
  to an agent of the pool.
\<close>

definition inv_dom :: "System \<Rightarrow> bool" where
  "inv_dom s = (\<forall>tid p. pcs s tid = Some p \<longrightarrow> tasks (orch s) tid \<noteq> None)"

definition inv_owner :: "System \<Rightarrow> bool" where
  "inv_owner s =
     (\<forall>tid ty i. pcs s tid = Some (AwaitExec ty i) \<longrightarrow>
        i < length (agents (orch s) ty) \<and> agent_status (agents (orch s) ty ! i) \<noteq> IDLE \<and>
        (\<forall>tid'. pcs s tid' = Some (AwaitExec ty i) \<longrightarrow> tid' = tid))"

definition inv_busy :: "System \<Rightarrow> bool" where
  "inv_busy s =
     (\<forall>ty i. i < length (agents (orch s) ty) \<and> agent_status (agents (orch s) ty ! i) = BUSY \<longrightarrow>
        (\<exists>tid. pcs s tid = Some (AwaitExec ty i)))"

definition pool_inv :: "System \<Rightarrow> bool" where
  "pool_inv s = (inv_dom s \<and> inv_owner s \<and> inv_busy s)"

definition inv_range :: "System \<Rightarrow> bool" where
  "inv_range s =
     (\<forall>tid ty i r. pcs s tid = Some (AwaitValidate ty i r) \<longrightarrow> i < length (agents (orch s) ty))"

section \<open>Concrete scenarios\<close>

text \<open>
  The orchestrator after a successful \<^verbatim>\<open>initialize\<close> (one agent per task type), a
  successful result of the coding agent with a given cost, and the same result without
  code.
\<close>

definition ready :: Orchestrator where
  "ready = initialize Orchestrator_init True True True"

definition code_result :: "rat \<Rightarrow> AgentResult" where
  "code_result c =
     \<lparr>success = True,
      output_dict = [(''code'', ''pass''), (''explanation'', ''Generated code based on requirements'')],
      error = None, tokens_used = 100, cost = c, metadata = []\<rparr>"

definition ledger_at :: "rat \<Rightarrow> Orchestrator \<Rightarrow> Orchestrator" where
  "ledger_at c orc = orc\<lparr>total_cost := c\<rparr>"

section \<open>What the agent calls return\<close>

text \<open>
  The value \<^verbatim>\<open>validate_result\<close> hands back to the lifecycle, whether it returns at
  once or after the verification call.
\<close>

definition validate_result_value :: "BaseAgent \<Rightarrow> AgentResult \<Rightarrow> verify_outcome \<Rightarrow> bool" where
  "validate_result_value a r vo =
     (case validate_result_begin a r of
        Some v \<Rightarrow> v
      | None \<Rightarrow> snd (validate_result_resume a vo))"

text \<open>Whether \<^verbatim>\<open>validate_result\<close> ran into an exception on the way.\<close>

definition validate_result_raised :: "BaseAgent \<Rightarrow> AgentResult \<Rightarrow> verify_outcome \<Rightarrow> bool" where
  "validate_result_raised a r vo =
     (case validate_result_begin a r of
        Some v \<Rightarrow> False
      | None \<Rightarrow> (case vo of VRaises e \<Rightarrow> True | VResponds tokens v \<Rightarrow> False))"

text \<open>
  Whether an exception was thrown inside \<^verbatim>\<open>execute_task\<close> or
  \<^verbatim>\<open>validate_result\<close> in the course of a lifecycle: the model call raised, or the
  lifecycle got to the verification step (successful result, cost check passed) and that
  one raised.
\<close>

definition lifecycle_raised :: "rat \<Rightarrow> Orchestrator \<Rightarrow> BaseAgent \<Rightarrow> model_outcome \<Rightarrow> verify_outcome \<Rightarrow> bool" where
  "lifecycle_raised limit orc a mo vo =
     (case mo of
        Raises e \<Rightarrow> True
      | Responds tokens r \<Rightarrow>
          success r \<and> \<not> total_cost orc + cost r > limit \<and> validate_result_raised a r vo)"

section \<open>Evaluation and frame lemmas\<close>

lemmas agent_defs =
  BaseAgent_init_def track_usage_def agent_update_status_def prepare_task_def
  cleanup_task_def handle_error_def calculate_cost_def failure_result_def
  execute_task_begin_def execute_task_resume_def no_code_def validate_result_begin_def
  validate_result_resume_def

lemmas orchestrator_defs =
  TaskManager_init_def update_status_def Orchestrator_init_def agent_class_def
  create_agent_def initialize_def submit_task_def get_task_status_def cancel_task_def
  get_available_agent_def check_cost_limit_def modify_task_def set_agent_def fail_task_def
  finish_task_def after_validate_def after_execute_def process_start_def
  process_exec_done_def process_validate_done_def process_task_def

lemmas scenario_defs = ready_def code_result_def ledger_at_def System_init_def run_def

lemma total_cost_modify_task [simp]: "total_cost (modify_task orc tid f) = total_cost orc"
  by (simp add: modify_task_def split: option.splits)

lemma total_cost_set_agent [simp]: "total_cost (set_agent orc ty i a) = total_cost orc"
  by (simp add: set_agent_def)

lemma total_cost_fail_task [simp]: "total_cost (fail_task orc tid msg) = total_cost orc"
  by (simp add: fail_task_def)

lemma total_cost_finish_task [simp]: "total_cost (finish_task orc tid r) = total_cost orc"
  by (simp add: finish_task_def)

lemma total_cost_after_validate [simp]: "total_cost (after_validate orc tid r v) = total_cost orc"
  by (simp add: after_validate_def)

lemma total_cost_after_execute:
  "total_cost (fst (after_execute limit orc tid ty i a r)) =
     (if success r \<and> total_cost orc + cost r \<le> limit then total_cost orc + cost r
      else total_cost orc)"
  by (auto simp: after_execute_def check_cost_limit_def Let_def split: option.splits)

lemma total_cost_process_validate_done [simp]:
  "total_cost (process_validate_done orc tid ty i r vo) = total_cost orc"
  by (simp add: process_validate_done_def split: prod.splits)

lemma total_cost_process_exec_done:
  "total_cost (fst (process_exec_done limit orc tid ty i mo)) =
     (case mo of
        Raises e \<Rightarrow> total_cost orc
      | Responds tokens r \<Rightarrow>
          if success r \<and> total_cost orc + cost r \<le> limit then total_cost orc + cost r
          else total_cost orc)"
  by (simp add: process_exec_done_def execute_task_resume_def total_cost_after_execute
        failure_result_def split: model_outcome.splits prod.splits)

lemma total_cost_process_start:
  "process_start limit orc tid = Some (orc', p) \<Longrightarrow> total_cost orc' = total_cost orc"
  apply (auto simp: process_start_def Let_def execute_task_begin_def prepare_task_def
        failure_result_def
      split: option.splits prod.splits if_splits)
  subgoal for t i a
    using total_cost_after_execute [of limit "set_agent (modify_task orc tid (\<lambda>t. update_status t IN_PROGRESS (Some (2 / 10)))) (task_type t) i a" tid "task_type t" i a "failure_result ''Agent is busy or unavailable''"]
    by (simp add: failure_result_def)
  done

lemma total_cost_cancel_task [simp]: "total_cost (fst (cancel_task orc tid)) = total_cost orc"
  by (simp add: cancel_task_def split: option.splits)

lemma total_cost_submit_task [simp]: "total_cost (fst (submit_task orc tid ty prio)) = total_cost orc"
  by (simp add: submit_task_def)

lemma total_cost_process_exec_done_pair:
  "process_exec_done limit orc tid ty i mo = (orc', p) \<Longrightarrow>
   total_cost orc' =
     (case mo of
        Raises e \<Rightarrow> total_cost orc
      | Responds tokens r \<Rightarrow>
          if success r \<and> total_cost orc + cost r \<le> limit then total_cost orc + cost r
          else total_cost orc)"
  using total_cost_process_exec_done [of limit orc tid ty i mo] by simp

lemma total_cost_step:
  "total_cost (orch (step limit s e)) =
     (case e of
        ExecDone tid (Responds tokens r) \<Rightarrow>
          (case pcs s tid of
             Some (AwaitExec ty i) \<Rightarrow>
               if success r \<and> total_cost (orch s) + cost r \<le> limit
               then total_cost (orch s) + cost r else total_cost (orch s)
           | _ \<Rightarrow> total_cost (orch s))
      | _ \<Rightarrow> total_cost (orch s))"
proof (cases e)
  case (Begin tid)
  then show ?thesis
    by (auto split: option.splits pc.splits dest: total_cost_process_start)
next
  case (ExecDone tid mo)
  then show ?thesis
    by (auto split: option.splits pc.splits prod.splits model_outcome.splits
          dest: total_cost_process_exec_done_pair)
qed (auto split: option.splits pc.splits)

lemma step_le_limit:
  "total_cost (orch s) \<le> limit \<Longrightarrow> total_cost (orch (step limit s e)) \<le> limit"
  by (simp add: total_cost_step split: event.splits model_outcome.splits option.splits pc.splits)

lemma step_mono:
  "0 \<le> event_cost e \<Longrightarrow> total_cost (orch s) \<le> total_cost (orch (step limit s e))"
  by (auto simp: total_cost_step split: event.splits model_outcome.splits option.splits pc.splits)

lemma run_le_limit:
  "total_cost (orch s) \<le> limit \<Longrightarrow> total_cost (orch (run limit s evs)) \<le> limit"
  unfolding run_def by (induction evs arbitrary: s) (simp_all add: step_le_limit)

lemma run_mono:
  "\<forall>e\<in>set evs. 0 \<le> event_cost e \<Longrightarrow> total_cost (orch s) \<le> total_cost (orch (run limit s evs))"
  unfolding run_def
proof (induction evs arbitrary: s)
  case Nil
  then show ?case by simp
next
  case (Cons e evs)
  have "total_cost (orch s) \<le> total_cost (orch (step limit s e))"
    using Cons.prems by (simp add: step_mono)
  also have "\<dots> \<le> total_cost (orch (foldl (step limit) (step limit s e) evs))"
    using Cons.prems by (intro Cons.IH) simp
  finally show ?case by simp
qed


section \<open>The cost ledger\<close>

text \<open>
  C2. Along every sequence of events of the event loop, that is for every interleaving
  of task lifecycles, submissions and cancellations, the ledger total
  \<^verbatim>\<open>_total_cost\<close> stays at or below the limit once it is there (it starts at 0), and
  it never decreases as long as the costs that agents report are not negative. The
  only event that changes it is the resumption of a lifecycle after a successful
  execution whose cost check passed, and that event adds exactly the cost of the
  result.
\<close>

theorem ledger_total_bounded_monotone:
  assumes "total_cost (orch s) \<le> limit" and "\<forall>e\<in>set evs. 0 \<le> event_cost e"
  shows "total_cost (orch (run limit s evs)) \<le> limit \<and>
         total_cost (orch s) \<le> total_cost (orch (run limit s evs)) \<and>
         (\<forall>e. total_cost (orch (step limit s e)) \<noteq> total_cost (orch s) \<longrightarrow>
            (\<exists>tid tokens r ty i.
               e = ExecDone tid (Responds tokens r) \<and> pcs s tid = Some (AwaitExec ty i) \<and>
               success r \<and> total_cost (orch s) + cost r \<le> limit \<and>
               total_cost (orch (step limit s e)) = total_cost (orch s) + cost r))"
proof (intro conjI allI impI)
  show "total_cost (orch (run limit s evs)) \<le> limit"
    using assms(1) by (rule run_le_limit)
  show "total_cost (orch s) \<le> total_cost (orch (run limit s evs))"
    using assms(2) by (rule run_mono)
next
  fix e
  assume ch: "total_cost (orch (step limit s e)) \<noteq> total_cost (orch s)"
  then show "\<exists>tid tokens r ty i.
               e = ExecDone tid (Responds tokens r) \<and> pcs s tid = Some (AwaitExec ty i) \<and>
               success r \<and> total_cost (orch s) + cost r \<le> limit \<and>
               total_cost (orch (step limit s e)) = total_cost (orch s) + cost r"
    by (auto simp: total_cost_step split: event.splits model_outcome.splits option.splits
          pc.splits if_splits)
qed

theorem ledger_total_bounded_monotone_witness:
  "total_cost (orch (run 5 (System_init ready) [Submit ''t1'' CODE MEDIUM, Begin ''t1''])) \<le> 5 \<and>
   0 \<le> event_cost (ExecDone ''t1'' (Responds 100 (code_result 2))) \<and>
   total_cost (orch (run 5 (System_init ready) [Submit ''t1'' CODE MEDIUM, Begin ''t1''])) = 0 \<and>
   total_cost (orch (run 5 (run 5 (System_init ready) [Submit ''t1'' CODE MEDIUM, Begin ''t1''])
      [ExecDone ''t1'' (Responds 100 (code_result 2))])) = 2"
  using ledger_total_bounded_monotone [of "run 5 (System_init ready) [Submit ''t1'' CODE MEDIUM, Begin ''t1'']" 5
      "[ExecDone ''t1'' (Responds 100 (code_result 2))]"]
  by (simp add: scenario_defs orchestrator_defs agent_defs)

lemma first_idle_Some:
  "first_idle as k = Some (i, a) \<Longrightarrow>
     k \<le> i \<and> i - k < length as \<and> as ! (i - k) = a \<and> agent_status a = IDLE \<and>
     (\<forall>j < i - k. agent_status (as ! j) \<noteq> IDLE)"
proof (induction as arbitrary: k)
  case Nil
  then show ?case by simp
next
  case (Cons b bs)
  show ?case
  proof (cases "agent_status b = IDLE")
    case True
    with Cons.prems show ?thesis by simp
  next
    case False
    with Cons.prems have rec: "first_idle bs (Suc k) = Some (i, a)" by simp
    from Cons.IH [OF rec] have ih: "Suc k \<le> i" "i - Suc k < length bs"
      "bs ! (i - Suc k) = a" "agent_status a = IDLE"
      "\<forall>j < i - Suc k. agent_status (bs ! j) \<noteq> IDLE" by simp_all
    from ih(1) have eq: "i - k = Suc (i - Suc k)" by simp
    have "\<forall>j < i - k. agent_status ((b # bs) ! j) \<noteq> IDLE"
    proof (intro allI impI)
      fix j assume "j < i - k"
      then show "agent_status ((b # bs) ! j) \<noteq> IDLE"
        using False ih(5) eq by (cases j) simp_all
    qed
    with ih eq show ?thesis by simp
  qed
qed

lemma first_idle_None:
  "(first_idle as k = None) = (\<forall>a\<in>set as. agent_status a \<noteq> IDLE)"
  by (induction as arbitrary: k) simp_all

lemma get_available_agent_Some:
  assumes "get_available_agent orc ty = Some (i, a)"
  shows "i < length (agents orc ty)" and "agents orc ty ! i = a" and "agent_status a = IDLE"
    and "\<forall>j < i. agent_status (agents orc ty ! j) \<noteq> IDLE"
  using first_idle_Some [of "agents orc ty" 0 i a] assms
  by (simp_all add: get_available_agent_def)

lemma process_start_acquired:
  assumes "tasks orc tid = Some t" and "get_available_agent orc (task_type t) = Some (i, a)"
  shows "process_start limit orc tid =
     Some (set_agent (modify_task orc tid (\<lambda>t. update_status t IN_PROGRESS (Some (2 / 10))))
             (task_type t) i (a\<lparr>current_task_id := Some tid, agent_status := BUSY\<rparr>),
           AwaitExec (task_type t) i)"
  using assms get_available_agent_Some(3) [OF assms(2)]
  by (simp add: process_start_def Let_def execute_task_begin_def prepare_task_def
        agent_update_status_def)

lemma tasks_set_agent [simp]: "tasks (set_agent orc ty i a) = tasks orc"
  by (simp add: set_agent_def)

lemma agents_modify_task [simp]: "agents (modify_task orc tid f) = agents orc"
  by (simp add: modify_task_def split: option.splits)

lemma length_agents_set_agent [simp]:
  "length (agents (set_agent orc ty i a) ty') = length (agents orc ty')"
  by (simp add: set_agent_def)

lemma agents_set_agent_same [simp]:
  "i < length (agents orc ty) \<Longrightarrow> agents (set_agent orc ty i a) ty ! i = a"
  by (simp add: set_agent_def)

lemma cost_limit_reached_set_agent [simp]:
  "cost_limit_reached (set_agent orc ty i a) = cost_limit_reached orc"
  by (simp add: set_agent_def)

lemma cost_limit_reached_modify_task [simp]:
  "cost_limit_reached (modify_task orc tid f) = cost_limit_reached orc"
  by (simp add: modify_task_def split: option.splits)

lemma tasks_modify_task [simp]:
  "tasks (modify_task orc tid f) tid' =
     (if tid' = tid then map_option f (tasks orc tid) else tasks orc tid')"
  by (simp add: modify_task_def split: option.splits)

lemma validate_result_value_agent_type:
  "agent_type a' = agent_type a \<Longrightarrow> validate_result_value a' r vo = validate_result_value a r vo"
  by (simp add: validate_result_value_def validate_result_begin_def validate_result_resume_def
        split: verify_outcome.splits)

section \<open>The lifecycle's outcomes\<close>

text \<open>
  C8. A lifecycle of a registered task that finds an idle agent, whose execution returns
  a successful result with cost \<open>c\<close>, whose cost check passes
  (\<open>total + c \<le> limit\<close>) and whose validation returns true, runs to its end and leaves
  the task \<^verbatim>\<open>completed\<close> with progress 1, the execution result as its result, its
  cost set to \<open>c\<close>, and the ledger total increased by exactly \<open>c\<close>. The witness is
  Scenario A: cost 2 under limit 5 from total 0.
\<close>

theorem successful_lifecycle:
  assumes "tasks orc tid = Some t"
    and "get_available_agent orc (task_type t) = Some (i, a)"
    and "success r" and "total_cost orc + cost r \<le> limit"
    and "validate_result_value a r vo"
  shows "\<exists>orc'. process_task limit orc tid (Responds tokens r) vo = Some orc' \<and>
           total_cost orc' = total_cost orc + cost r \<and>
           tasks orc' tid =
             Some (t\<lparr>status := COMPLETED, progress := 1, result := Some r, task_cost := cost r\<rparr>)"
proof -
  note acq = get_available_agent_Some [OF assms(2)]
  let ?busy = "a\<lparr>current_task_id := Some tid, agent_status := BUSY\<rparr>"
  let ?idle = "cleanup_task (track_usage ?busy tokens (calculate_cost tokens False))"
  have ty: "agent_type ?idle = agent_type a"
    by (simp add: cleanup_task_def track_usage_def agent_update_status_def)
  have v: "validate_result_value ?idle r vo"
    using assms(5) validate_result_value_agent_type [OF ty] by simp
  show ?thesis
    using assms(1,3,4) acq(1) v
    by (auto simp: process_task_def process_start_acquired [OF assms(1,2)]
          process_exec_done_def process_validate_done_def
          execute_task_resume_def after_execute_def check_cost_limit_def Let_def
          validate_result_value_def after_validate_def finish_task_def
          update_status_def
        split: option.splits prod.splits)
qed

theorem successful_lifecycle_witness:
  "tasks (fst (submit_task ready ''t1'' CODE MEDIUM)) ''t1'' = Some (TaskManager_init ''t1'' CODE MEDIUM) \<and>
   get_available_agent (fst (submit_task ready ''t1'' CODE MEDIUM)) (task_type (TaskManager_init ''t1'' CODE MEDIUM)) =
     Some (0, BaseAgent_init ''coding-agent-1'' CODING) \<and>
   success (code_result 2) \<and>
   total_cost (fst (submit_task ready ''t1'' CODE MEDIUM)) + cost (code_result 2) \<le> 5 \<and>
   validate_result_value (BaseAgent_init ''coding-agent-1'' CODING) (code_result 2) (VResponds 50 True) \<and>
   (\<exists>orc'. process_task 5 (fst (submit_task ready ''t1'' CODE MEDIUM)) ''t1''
              (Responds 100 (code_result 2)) (VResponds 50 True) = Some orc' \<and>
           total_cost orc' = 2 \<and>
           tasks orc' ''t1'' =
             Some \<lparr>task_id = ''t1'', task_type = CODE, priority = MEDIUM, status = COMPLETED,
                   progress = 1, result = Some (code_result 2), task_error = None,
                   task_cost = 2\<rparr>)"
proof -
  have h1: "tasks (fst (submit_task ready ''t1'' CODE MEDIUM)) ''t1'' = Some (TaskManager_init ''t1'' CODE MEDIUM)"
    by (simp add: submit_task_def)
  have h2: "get_available_agent (fst (submit_task ready ''t1'' CODE MEDIUM)) (task_type (TaskManager_init ''t1'' CODE MEDIUM)) =
     Some (0, BaseAgent_init ''coding-agent-1'' CODING)"
    by (simp add: scenario_defs orchestrator_defs agent_defs)
  have h3: "success (code_result 2)" by (simp add: code_result_def)
  have h4: "total_cost (fst (submit_task ready ''t1'' CODE MEDIUM)) + cost (code_result 2) \<le> 5"
    by (simp add: scenario_defs orchestrator_defs)
  have h5: "validate_result_value (BaseAgent_init ''coding-agent-1'' CODING) (code_result 2) (VResponds 50 True)"
    by (simp add: validate_result_value_def agent_defs code_result_def)
  from successful_lifecycle [OF h1 h2 h3 h4 h5, of 100]
  show ?thesis using h1 h2 h3 h4 h5
    by (simp add: TaskManager_init_def code_result_def ready_def initialize_def create_agent_def
          Orchestrator_init_def submit_task_def)
qed



lemma validate_result_raised_value:
  "validate_result_raised a r vo \<Longrightarrow> \<not> validate_result_value a r vo"
  by (simp add: validate_result_raised_def validate_result_value_def validate_result_resume_def
        split: option.splits verify_outcome.splits)

text \<open>
  C9. A lifecycle that reaches the verification step (successful execution, cost check
  passed) and whose \<^verbatim>\<open>validate_result\<close> returns false or runs into an exception
  (which it catches itself, returning false) leaves the task \<^verbatim>\<open>failed\<close> with the
  reason \<^verbatim>\<open>Result validation failed\<close>; the task keeps the executed cost and the
  ledger keeps the charge.
\<close>

theorem validation_failure_lifecycle:
  assumes "tasks orc tid = Some t"
    and "get_available_agent orc (task_type t) = Some (i, a)"
    and "success r" and "total_cost orc + cost r \<le> limit"
    and "validate_result_raised a r vo \<or> \<not> validate_result_value a r vo"
  shows "\<exists>orc'. process_task limit orc tid (Responds tokens r) vo = Some orc' \<and>
           total_cost orc' = total_cost orc + cost r \<and>
           tasks orc' tid =
             Some (t\<lparr>status := FAILED, progress := 8 / 10,
                     task_error := Some ''Result validation failed'', task_cost := cost r\<rparr>)"
proof -
  note acq = get_available_agent_Some [OF assms(2)]
  let ?busy = "a\<lparr>current_task_id := Some tid, agent_status := BUSY\<rparr>"
  let ?idle = "cleanup_task (track_usage ?busy tokens (calculate_cost tokens False))"
  have ty: "agent_type ?idle = agent_type a"
    by (simp add: cleanup_task_def track_usage_def agent_update_status_def)
  have "\<not> validate_result_value a r vo"
    using assms(5) validate_result_raised_value by blast
  then have v: "\<not> validate_result_value ?idle r vo"
    using validate_result_value_agent_type [OF ty] by simp
  show ?thesis
    using assms(1,3,4) acq(1) v
    by (auto simp: process_task_def process_start_acquired [OF assms(1,2)]
          process_exec_done_def process_validate_done_def
          execute_task_resume_def after_execute_def check_cost_limit_def Let_def
          validate_result_value_def after_validate_def fail_task_def
          update_status_def
        split: option.splits prod.splits)
qed

text \<open>
  C3. A lifecycle whose execution returns a successful result with a cost \<open>c\<close> such
  that \<open>total + c > limit\<close> leaves the ledger total unchanged, sets the flag
  \<^verbatim>\<open>_cost_limit_reached\<close>, and leaves the task \<^verbatim>\<open>failed\<close> with the reason
  \<^verbatim>\<open>Cost limit reached\<close>, its result and its cost untouched: the cost is still the 0
  of \<open>TaskManager_init\<close>, as the witness (Scenario B: total 4.5, limit 5, cost 1)
  shows.
\<close>

theorem cost_limit_rejection:
  assumes "tasks orc tid = Some t"
    and "get_available_agent orc (task_type t) = Some (i, a)"
    and "success r" and "total_cost orc + cost r > limit"
  shows "\<exists>orc' t'. process_task limit orc tid (Responds tokens r) vo = Some orc' \<and>
           total_cost orc' = total_cost orc \<and> cost_limit_reached orc' \<and>
           tasks orc' tid = Some t' \<and>
           t' = t\<lparr>status := FAILED, progress := 2 / 10, task_error := Some ''Cost limit reached''\<rparr> \<and>
           result t' = result t \<and> task_cost t' = task_cost t"
proof -
  note acq = get_available_agent_Some [OF assms(2)]
  show ?thesis
    using assms(1,3,4) acq(1)
    by (auto simp: process_task_def process_start_acquired [OF assms(1,2)]
          process_exec_done_def
          execute_task_resume_def after_execute_def check_cost_limit_def Let_def
          fail_task_def update_status_def
        split: option.splits prod.splits)
qed

theorem validation_failure_lifecycle_witness:
  "tasks (fst (submit_task ready ''t1'' CODE MEDIUM)) ''t1'' = Some (TaskManager_init ''t1'' CODE MEDIUM) \<and>
   get_available_agent (fst (submit_task ready ''t1'' CODE MEDIUM)) (task_type (TaskManager_init ''t1'' CODE MEDIUM)) =
     Some (0, BaseAgent_init ''coding-agent-1'' CODING) \<and>
   success (code_result 2) \<and>
   total_cost (fst (submit_task ready ''t1'' CODE MEDIUM)) + cost (code_result 2) \<le> 5 \<and>
   validate_result_raised (BaseAgent_init ''coding-agent-1'' CODING) (code_result 2) (VRaises ''timeout'') \<and>
   (\<exists>orc'. process_task 5 (fst (submit_task ready ''t1'' CODE MEDIUM)) ''t1''
              (Responds 100 (code_result 2)) (VRaises ''timeout'') = Some orc' \<and>
           total_cost orc' = 2 \<and>
           tasks orc' ''t1'' =
             Some \<lparr>task_id = ''t1'', task_type = CODE, priority = MEDIUM, status = FAILED,
                   progress = 8 / 10, result = None,
                   task_error = Some ''Result validation failed'', task_cost = 2\<rparr>)"
proof -
  have h1: "tasks (fst (submit_task ready ''t1'' CODE MEDIUM)) ''t1'' = Some (TaskManager_init ''t1'' CODE MEDIUM)"
    by (simp add: submit_task_def)
  have h2: "get_available_agent (fst (submit_task ready ''t1'' CODE MEDIUM)) (task_type (TaskManager_init ''t1'' CODE MEDIUM)) =
     Some (0, BaseAgent_init ''coding-agent-1'' CODING)"
    by (simp add: scenario_defs orchestrator_defs agent_defs)
  have h3: "success (code_result 2)" by (simp add: code_result_def)
  have h4: "total_cost (fst (submit_task ready ''t1'' CODE MEDIUM)) + cost (code_result 2) \<le> 5"
    by (simp add: scenario_defs orchestrator_defs)
  have h5: "validate_result_raised (BaseAgent_init ''coding-agent-1'' CODING) (code_result 2) (VRaises ''timeout'')"
    by (simp add: validate_result_raised_def agent_defs code_result_def)
  from validation_failure_lifecycle [OF h1 h2 h3 h4 disjI1 [OF h5], of 100]
  show ?thesis using h1 h2 h3 h4 h5
    by (simp add: TaskManager_init_def code_result_def ready_def initialize_def create_agent_def
          Orchestrator_init_def submit_task_def)
qed

theorem cost_limit_rejection_witness:
  "tasks (fst (submit_task (ledger_at (9 / 2) ready) ''t1'' CODE MEDIUM)) ''t1'' =
     Some (TaskManager_init ''t1'' CODE MEDIUM) \<and>
   get_available_agent (fst (submit_task (ledger_at (9 / 2) ready) ''t1'' CODE MEDIUM))
       (task_type (TaskManager_init ''t1'' CODE MEDIUM)) =
     Some (0, BaseAgent_init ''coding-agent-1'' CODING) \<and>
   success (code_result 1) \<and>
   total_cost (fst (submit_task (ledger_at (9 / 2) ready) ''t1'' CODE MEDIUM)) + cost (code_result 1) > 5 \<and>
   (\<exists>orc'. process_task 5 (fst (submit_task (ledger_at (9 / 2) ready) ''t1'' CODE MEDIUM)) ''t1''
              (Responds 100 (code_result 1)) (VResponds 50 True) = Some orc' \<and>
           total_cost orc' = 9 / 2 \<and> cost_limit_reached orc' \<and>
           tasks orc' ''t1'' =
             Some \<lparr>task_id = ''t1'', task_type = CODE, priority = MEDIUM, status = FAILED,
                   progress = 2 / 10, result = None,
                   task_error = Some ''Cost limit reached'', task_cost = 0\<rparr>)"
proof -
  let ?orc = "fst (submit_task (ledger_at (9 / 2) ready) ''t1'' CODE MEDIUM)"
  have h1: "tasks ?orc ''t1'' = Some (TaskManager_init ''t1'' CODE MEDIUM)"
    by (simp add: submit_task_def)
  have h2: "get_available_agent ?orc (task_type (TaskManager_init ''t1'' CODE MEDIUM)) =
     Some (0, BaseAgent_init ''coding-agent-1'' CODING)"
    by (simp add: scenario_defs orchestrator_defs agent_defs)
  have h3: "success (code_result 1)" by (simp add: code_result_def)
  have h4: "total_cost ?orc + cost (code_result 1) > 5"
    by (simp add: scenario_defs orchestrator_defs)
  from cost_limit_rejection [OF h1 h2 h3 h4, of 100 "VResponds 50 True"]
  show ?thesis using h1 h2 h3 h4
    by (simp add: TaskManager_init_def code_result_def ready_def initialize_def create_agent_def
          Orchestrator_init_def submit_task_def ledger_at_def)
qed

section \<open>The agent pool\<close>

lemma agents_set_agent:
  "agents (set_agent orc ty i a) = (agents orc)(ty := (agents orc ty)[i := a])"
  by (simp add: set_agent_def)

lemma agents_fail_task [simp]: "agents (fail_task orc tid msg) = agents orc"
  by (simp add: fail_task_def)

lemma agents_finish_task [simp]: "agents (finish_task orc tid r) = agents orc"
  by (simp add: finish_task_def)

lemma agents_after_validate [simp]: "agents (after_validate orc tid r v) = agents orc"
  by (simp add: after_validate_def)

lemma agents_after_execute [simp]:
  "agents (fst (after_execute limit orc tid ty i a r)) = agents orc"
  by (simp add: after_execute_def check_cost_limit_def Let_def split: option.splits)

lemma pc_after_execute:
  "snd (after_execute limit orc tid ty i a r) =
     (if success r \<and> \<not> total_cost orc + cost r > limit \<and> validate_result_begin a r = None
      then AwaitValidate ty i r else Done)"
  by (simp add: after_execute_def check_cost_limit_def Let_def split: option.splits)

lemma validate_result_raised_agent_type:
  "agent_type a' = agent_type a \<Longrightarrow> validate_result_raised a' r vo = validate_result_raised a r vo"
  by (simp add: validate_result_raised_def validate_result_begin_def)

lemma process_task_agents:
  assumes "tasks orc tid = Some t"
    and "get_available_agent orc (task_type t) = Some (i, a)"
  shows "\<exists>orc'. process_task limit orc tid mo vo = Some orc' \<and>
           agents orc' = (agents orc)(task_type t :=
             (agents orc (task_type t))[i := agents orc' (task_type t) ! i]) \<and>
           agent_status (agents orc' (task_type t) ! i) =
             (if lifecycle_raised limit orc a mo vo then ERROR else IDLE)"
proof -
  note acq = get_available_agent_Some [OF assms(2)]
  let ?ty = "task_type t"
  let ?busy = "a\<lparr>current_task_id := Some tid, agent_status := BUSY\<rparr>"
  let ?orc1 = "set_agent (modify_task orc tid (\<lambda>t. update_status t IN_PROGRESS (Some (2 / 10)))) ?ty i ?busy"
  have start: "process_task limit orc tid mo vo =
      Some (process_rest limit tid mo vo (?orc1, AwaitExec ?ty i))"
    by (simp add: process_task_def process_start_acquired [OF assms])
  have nth1: "agents ?orc1 ?ty ! i = ?busy" using acq(1) by simp
  have ag1: "agents ?orc1 = (agents orc)(?ty := (agents orc ?ty)[i := ?busy])"
    by (simp add: agents_set_agent)
  show ?thesis
  proof (cases mo)
    case (Raises e)
    have "process_rest limit tid mo vo (?orc1, AwaitExec ?ty i) =
        fst (after_execute limit (set_agent ?orc1 ?ty i (handle_error ?busy)) tid ?ty i
               (handle_error ?busy) (failure_result e))"
      using Raises nth1
      by (simp add: process_exec_done_def execute_task_resume_def after_execute_def
            failure_result_def)
    then show ?thesis
      using Raises start acq(1)
      by (simp add: agents_set_agent lifecycle_raised_def handle_error_def
            agent_update_status_def)
  next
    case (Responds tokens r)
    let ?idle = "cleanup_task (track_usage ?busy tokens (calculate_cost tokens False))"
    let ?orc2 = "set_agent ?orc1 ?ty i ?idle"
    have ty: "agent_type ?idle = agent_type a"
      by (simp add: cleanup_task_def track_usage_def agent_update_status_def)
    have st: "agent_status ?idle = IDLE"
      by (simp add: cleanup_task_def track_usage_def agent_update_status_def)
    have ped: "process_exec_done limit ?orc1 tid ?ty i mo = after_execute limit ?orc2 tid ?ty i ?idle r"
      using Responds nth1 by (simp add: process_exec_done_def execute_task_resume_def)
    obtain orc3 p where ae: "after_execute limit ?orc2 tid ?ty i ?idle r = (orc3, p)"
      by (cases "after_execute limit ?orc2 tid ?ty i ?idle r")
    have "agents orc3 = agents ?orc2"
      using ae by (metis agents_after_execute fst_conv)
    then have ag3: "agents orc3 = (agents orc)(?ty := (agents orc ?ty)[i := ?idle])"
      by (simp add: agents_set_agent)
    have "p = snd (after_execute limit ?orc2 tid ?ty i ?idle r)"
      using ae by simp
    then have p: "p = (if success r \<and> \<not> total_cost orc + cost r > limit \<and> validate_result_begin ?idle r = None
                  then AwaitValidate ?ty i r else Done)"
      by (simp only: pc_after_execute total_cost_set_agent total_cost_modify_task)
    show ?thesis
    proof (cases "success r \<and> \<not> total_cost orc + cost r > limit \<and> validate_result_begin ?idle r = None")
      case False
      then have "p = Done" using p by simp
      then have fin: "process_task limit orc tid mo vo = Some orc3"
        using start ped ae by simp
      have "\<not> validate_result_raised ?idle r vo \<or> \<not> (success r \<and> \<not> total_cost orc + cost r > limit)"
        using False by (auto simp: validate_result_raised_def)
      then have "\<not> lifecycle_raised limit orc a mo vo"
        using Responds validate_result_raised_agent_type [OF ty]
        by (auto simp: lifecycle_raised_def)
      then show ?thesis using fin ag3 st acq(1) by simp
    next
      case True
      then have pv: "p = AwaitValidate ?ty i r" using p by simp
      have nth3: "agents orc3 ?ty ! i = ?idle" using ag3 acq(1) by simp
      have fin: "process_task limit orc tid mo vo = Some (process_validate_done orc3 tid ?ty i r vo)"
        using start ped ae pv by simp
      have raised: "lifecycle_raised limit orc a mo vo = (case vo of VRaises e \<Rightarrow> True | VResponds n v \<Rightarrow> False)"
        using True Responds validate_result_raised_agent_type [OF ty, of r vo]
        by (simp add: lifecycle_raised_def validate_result_raised_def)
      show ?thesis
        using fin ag3 nth3 raised st acq(1)
        by (cases vo)
          (simp_all add: process_validate_done_def validate_result_resume_def agents_set_agent
            handle_error_def agent_update_status_def track_usage_def)
    qed
  qed
qed

lemma process_task_no_agent:
  assumes "tasks orc tid = Some t" and "get_available_agent orc (task_type t) = None"
  shows "process_task limit orc tid mo vo =
           Some (fail_task orc tid (Some ''No available agent found''))"
  using assms by (simp add: process_task_def process_start_def)

lemma not_idle_not_available:
  assumes "agent_status (agents orc ty ! i) \<noteq> IDLE"
  shows "get_available_agent orc ty \<noteq> Some (i, b)"
  using get_available_agent_Some(2,3) [of orc ty i b] assms by auto

text \<open>
  C4, as stated, fails: \<^verbatim>\<open>_get_available_agent\<close> only reads. On the orchestrator
  after \<^verbatim>\<open>initialize\<close> it returns the coding agent, and that agent is still idle,
  not busy, in the state it returns in.
\<close>

theorem selection_not_marking_counterexample:
  "get_available_agent ready CODE = Some (0, BaseAgent_init ''coding-agent-1'' CODING) \<and>
   agent_status (agents ready CODE ! 0) = IDLE \<and>
   agent_status (agents ready CODE ! 0) \<noteq> BUSY"
  by (simp add: scenario_defs orchestrator_defs agent_defs)

text \<open>
  C4, amended. \<^verbatim>\<open>_get_available_agent\<close> returns the first agent of the task type
  whose status is idle (every agent before it in the list is not idle), or nothing when
  no agent of the type is idle, and changes no state. Marking the agent busy is the work
  of \<^verbatim>\<open>prepare_task\<close>, which \<^verbatim>\<open>execute_task\<close> calls first: on the selected agent
  it succeeds and sets the status to busy, and the lifecycle reaches its first
  suspension point (the model call) with that agent busy.
\<close>

theorem selection_then_marking:
  assumes "tasks orc tid = Some t"
  shows "case get_available_agent orc (task_type t) of
           None \<Rightarrow> list_all (\<lambda>a. agent_status a \<noteq> IDLE) (agents orc (task_type t))
         | Some (i, a) \<Rightarrow>
             i < length (agents orc (task_type t)) \<and> agents orc (task_type t) ! i = a \<and>
             agent_status a = IDLE \<and>
             list_all (\<lambda>b. agent_status b \<noteq> IDLE) (take i (agents orc (task_type t))) \<and>
             prepare_task a tid = (a\<lparr>current_task_id := Some tid, agent_status := BUSY\<rparr>, True) \<and>
             (\<exists>orc'. process_start limit orc tid = Some (orc', AwaitExec (task_type t) i) \<and>
                agent_status (agents orc' (task_type t) ! i) = BUSY)"
proof (cases "get_available_agent orc (task_type t)")
  case None
  then have "\<forall>a\<in>set (agents orc (task_type t)). agent_status a \<noteq> IDLE"
    by (simp add: get_available_agent_def first_idle_None)
  with None show ?thesis
    by (simp add: list_all_iff)
next
  case (Some ia)
  obtain i a where ia: "ia = (i, a)" by (cases ia)
  note acq = get_available_agent_Some [OF Some [unfolded ia]]
  have "list_all (\<lambda>b. agent_status b \<noteq> IDLE) (take i (agents orc (task_type t)))"
    using acq(1,4) by (auto simp: list_all_length)
  then show ?thesis
    using Some ia acq(1,2,3) process_start_acquired [OF assms Some [unfolded ia], of limit]
    by (simp add: prepare_task_def agent_update_status_def)
qed

theorem selection_then_marking_witness:
  "tasks (fst (submit_task ready ''t1'' CODE MEDIUM)) ''t1'' = Some (TaskManager_init ''t1'' CODE MEDIUM) \<and>
   get_available_agent (fst (submit_task ready ''t1'' CODE MEDIUM)) CODE =
     Some (0, BaseAgent_init ''coding-agent-1'' CODING) \<and>
   (\<exists>orc'. process_start 5 (fst (submit_task ready ''t1'' CODE MEDIUM)) ''t1'' = Some (orc', AwaitExec CODE 0) \<and>
      agent_status (agents orc' CODE ! 0) = BUSY)"
proof -
  let ?orc = "fst (submit_task ready ''t1'' CODE MEDIUM)"
  have h1: "tasks ?orc ''t1'' = Some (TaskManager_init ''t1'' CODE MEDIUM)"
    by (simp add: submit_task_def)
  have h2: "get_available_agent ?orc CODE = Some (0, BaseAgent_init ''coding-agent-1'' CODING)"
    by (simp add: scenario_defs orchestrator_defs agent_defs)
  have ty: "task_type (TaskManager_init ''t1'' CODE MEDIUM) = CODE"
    by (simp add: TaskManager_init_def)
  from selection_then_marking [OF h1, of 5] h1 h2 show ?thesis
    by (simp add: ty)
qed

subsection \<open>The pool under interleaving\<close>

lemma status_execute_task_resume:
  "agent_status (fst (execute_task_resume a mo)) =
     (case mo of Raises e \<Rightarrow> ERROR | Responds n r \<Rightarrow> IDLE)"
  by (simp add: execute_task_resume_def handle_error_def cleanup_task_def track_usage_def
        agent_update_status_def split: model_outcome.splits)

lemma status_validate_result_resume:
  "agent_status (fst (validate_result_resume a vo)) =
     (case vo of VRaises e \<Rightarrow> ERROR | VResponds n v \<Rightarrow> agent_status a)"
  by (simp add: validate_result_resume_def handle_error_def track_usage_def
        agent_update_status_def split: verify_outcome.splits)

lemma agents_process_exec_done:
  "agents (fst (process_exec_done limit orc tid ty i mo)) =
     (agents orc)(ty := (agents orc ty)[i := fst (execute_task_resume (agents orc ty ! i) mo)])"
  by (simp add: process_exec_done_def agents_set_agent split: prod.splits)

lemma pc_process_exec_done:
  "snd (process_exec_done limit orc tid ty i mo) \<noteq> AwaitExec ty' i'"
  by (simp add: process_exec_done_def pc_after_execute split: prod.splits)

lemma agents_process_validate_done:
  "agents (process_validate_done orc tid ty i r vo) =
     (agents orc)(ty := (agents orc ty)[i := fst (validate_result_resume (agents orc ty ! i) vo)])"
  by (simp add: process_validate_done_def agents_set_agent split: prod.splits)

lemma process_start_cases:
  assumes "process_start limit orc tid = Some (orc', p)"
  shows "(p = Done \<and> agents orc' = agents orc) \<or>
         (\<exists>ty i a. p = AwaitExec ty i \<and> i < length (agents orc ty) \<and>
            agent_status (agents orc ty ! i) = IDLE \<and>
            agents orc' = (agents orc)(ty := (agents orc ty)[i := a]) \<and> agent_status a = BUSY)"
proof -
  from assms obtain t where t: "tasks orc tid = Some t"
    by (auto simp: process_start_def split: option.splits)
  show ?thesis
  proof (cases "get_available_agent orc (task_type t)")
    case None
    with assms t show ?thesis by (auto simp: process_start_def)
  next
    case (Some ia)
    obtain i a where ia: "ia = (i, a)" by (cases ia)
    note sel = Some [unfolded ia]
    note acq = get_available_agent_Some [OF sel]
    from process_start_acquired [OF t sel, of limit] assms
    have "p = AwaitExec (task_type t) i" and
      "agents orc' = (agents orc)(task_type t := (agents orc (task_type t))
          [i := a\<lparr>current_task_id := Some tid, agent_status := BUSY\<rparr>])"
      by (auto simp: agents_set_agent)
    with acq show ?thesis by auto
  qed
qed

lemma dom_modify_task [simp]:
  "(tasks (modify_task orc tid f) x = None) = (tasks orc x = None)"
  by simp

lemma dom_fail_task [simp]: "(tasks (fail_task orc tid m) x = None) = (tasks orc x = None)"
  by (simp add: fail_task_def)

lemma dom_finish_task [simp]: "(tasks (finish_task orc tid r) x = None) = (tasks orc x = None)"
  by (simp add: finish_task_def)

lemma dom_after_validate [simp]:
  "(tasks (after_validate orc tid r v) x = None) = (tasks orc x = None)"
  by (simp add: after_validate_def)

lemma dom_after_execute [simp]:
  "(tasks (fst (after_execute limit orc tid ty i a r)) x = None) = (tasks orc x = None)"
  by (simp add: after_execute_def check_cost_limit_def Let_def split: option.splits)

lemma dom_process_exec_done [simp]:
  "(tasks (fst (process_exec_done limit orc tid ty i mo)) x = None) = (tasks orc x = None)"
  by (simp add: process_exec_done_def split: prod.splits)

lemma dom_process_validate_done [simp]:
  "(tasks (process_validate_done orc tid ty i r vo) x = None) = (tasks orc x = None)"
  by (simp add: process_validate_done_def split: prod.splits)

lemma dom_process_start:
  assumes "process_start limit orc tid = Some (orc', p)"
  shows "(tasks orc' x = None) = (tasks orc x = None)"
proof -
  from assms obtain t where t: "tasks orc tid = Some t"
    by (auto simp: process_start_def split: option.splits)
  show ?thesis
  proof (cases "get_available_agent orc (task_type t)")
    case None
    with assms t show ?thesis by (auto simp: process_start_def)
  next
    case (Some ia)
    obtain i a where ia: "ia = (i, a)" by (cases ia)
    from process_start_acquired [OF t Some [unfolded ia], of limit] assms
    show ?thesis by auto
  qed
qed

lemma dom_cancel_task:
  "(tasks (fst (cancel_task orc tid)) x = None) = (tasks orc x = None)"
  by (simp add: cancel_task_def split: option.splits)

lemma pool_inv_Submit:
  assumes "pool_inv s"
  shows "pool_inv (step limit s (Submit tid0 ty0 prio0))"
proof (cases "tasks (orch s) tid0")
  case (Some t)
  with assms show ?thesis by simp
next
  case None
  with assms have fresh: "pcs s tid0 = None"
    by (cases "pcs s tid0") (auto simp: pool_inv_def inv_dom_def)
  from assms None fresh show ?thesis
    unfolding pool_inv_def inv_dom_def inv_owner_def inv_busy_def
    by (simp add: submit_task_def) (metis option.distinct(1))
qed

lemma pool_inv_Cancel:
  assumes "pool_inv s"
  shows "pool_inv (step limit s (Cancel tid0))"
proof -
  have ag: "agents (fst (cancel_task (orch s) tid0)) = agents (orch s)"
    by (simp add: cancel_task_def split: option.splits)
  from assms show ?thesis
    unfolding pool_inv_def inv_dom_def inv_owner_def inv_busy_def
    by (simp add: ag dom_cancel_task)
qed

lemma nth_agents_upd:
  "((ags :: TaskType \<Rightarrow> BaseAgent list)(ty := (ags ty)[i := a])) ty1 ! i1 =
     (if ty1 = ty \<and> i1 = i \<and> i < length (ags ty) then a else ags ty1 ! i1)"
  by (cases "i1 = i") (auto simp: list_update_beyond)

lemma length_agents_upd:
  "length (((ags :: TaskType \<Rightarrow> BaseAgent list)(ty := (ags ty)[i := a])) ty1) = length (ags ty1)"
  by auto

lemma pool_inv_pc_Done:
  assumes "pool_inv s" and "pcs s tid0 = Some Start"
    and "agents orc' = agents (orch s)"
    and "\<And>x. (tasks orc' x = None) = (tasks (orch s) x = None)"
  shows "pool_inv (s\<lparr>orch := orc', pcs := (pcs s)(tid0 \<mapsto> Done)\<rparr>)"
  using assms
  unfolding pool_inv_def inv_dom_def inv_owner_def inv_busy_def
  by (simp) (metis option.inject pc.distinct(1))

lemma pool_inv_Begin:
  assumes "pool_inv s"
  shows "pool_inv (step limit s (Begin tid0))"
proof (cases "pcs s tid0 = Some Start")
  case False
  with assms show ?thesis
    by (auto split: option.splits pc.splits)
next
  case True
  show ?thesis
  proof (cases "process_start limit (orch s) tid0")
    case None
    have "pool_inv (s\<lparr>orch := orch s, pcs := (pcs s)(tid0 \<mapsto> Done)\<rparr>)"
      using assms True by (rule pool_inv_pc_Done) simp_all
    with True None show ?thesis by simp
  next
    case (Some sp)
    obtain orc' p where sp: "sp = (orc', p)" by (cases sp)
    note ps = Some [unfolded sp]
    have st: "step limit s (Begin tid0) = s\<lparr>orch := orc', pcs := (pcs s)(tid0 \<mapsto> p)\<rparr>"
      using True ps by simp
    from process_start_cases [OF ps] show ?thesis
    proof
      assume d: "p = Done \<and> agents orc' = agents (orch s)"
      have "pool_inv (s\<lparr>orch := orc', pcs := (pcs s)(tid0 \<mapsto> Done)\<rparr>)"
        using assms True d dom_process_start [OF ps] by (intro pool_inv_pc_Done) simp_all
      with st d show ?thesis by simp
    next
      assume "\<exists>ty i a. p = AwaitExec ty i \<and> i < length (agents (orch s) ty) \<and>
            agent_status (agents (orch s) ty ! i) = IDLE \<and>
            agents orc' = (agents (orch s))(ty := (agents (orch s) ty)[i := a]) \<and>
            agent_status a = BUSY"
      then obtain ty i a where p: "p = AwaitExec ty i" and len: "i < length (agents (orch s) ty)"
        and idle: "agent_status (agents (orch s) ty ! i) = IDLE"
        and ag: "agents orc' = (agents (orch s))(ty := (agents (orch s) ty)[i := a])"
        and busy: "agent_status a = BUSY" by blast
      have noown: "pcs s tid \<noteq> Some (AwaitExec ty i)" for tid
        using assms idle unfolding pool_inv_def inv_owner_def by blast
      have dom: "inv_dom (s\<lparr>orch := orc', pcs := (pcs s)(tid0 \<mapsto> p)\<rparr>)"
        using assms True dom_process_start [OF ps]
        unfolding pool_inv_def inv_dom_def by auto
      have own: "inv_owner (s\<lparr>orch := orc', pcs := (pcs s)(tid0 \<mapsto> p)\<rparr>)"
        unfolding inv_owner_def
      proof (intro allI impI)
        fix tid ty1 i1
        assume a1: "pcs (s\<lparr>orch := orc', pcs := (pcs s)(tid0 \<mapsto> p)\<rparr>) tid = Some (AwaitExec ty1 i1)"
        show "i1 < length (agents (orch (s\<lparr>orch := orc', pcs := (pcs s)(tid0 \<mapsto> p)\<rparr>)) ty1) \<and>
              agent_status (agents (orch (s\<lparr>orch := orc', pcs := (pcs s)(tid0 \<mapsto> p)\<rparr>)) ty1 ! i1) \<noteq> IDLE \<and>
              (\<forall>tid'. pcs (s\<lparr>orch := orc', pcs := (pcs s)(tid0 \<mapsto> p)\<rparr>) tid' = Some (AwaitExec ty1 i1) \<longrightarrow> tid' = tid)"
        proof (cases "tid = tid0")
          case True
          with a1 p have eq: "ty1 = ty" "i1 = i" by simp_all
          show ?thesis
            using True eq len busy noown by (auto simp: ag p nth_agents_upd)
        next
          case False
          with a1 have old: "pcs s tid = Some (AwaitExec ty1 i1)" by simp
          with noown have ne: "\<not> (ty1 = ty \<and> i1 = i)" by auto
          from assms old have o: "i1 < length (agents (orch s) ty1)"
            "agent_status (agents (orch s) ty1 ! i1) \<noteq> IDLE"
            "\<forall>tid'. pcs s tid' = Some (AwaitExec ty1 i1) \<longrightarrow> tid' = tid"
            unfolding pool_inv_def inv_owner_def by blast+
          show ?thesis
            using o ne p by (auto simp: ag nth_agents_upd)
        qed
      qed
      have bsy: "inv_busy (s\<lparr>orch := orc', pcs := (pcs s)(tid0 \<mapsto> p)\<rparr>)"
        unfolding inv_busy_def
      proof (intro allI impI)
        fix ty1 i1
        assume a1: "i1 < length (agents (orch (s\<lparr>orch := orc', pcs := (pcs s)(tid0 \<mapsto> p)\<rparr>)) ty1) \<and>
            agent_status (agents (orch (s\<lparr>orch := orc', pcs := (pcs s)(tid0 \<mapsto> p)\<rparr>)) ty1 ! i1) = BUSY"
        show "\<exists>tid. pcs (s\<lparr>orch := orc', pcs := (pcs s)(tid0 \<mapsto> p)\<rparr>) tid = Some (AwaitExec ty1 i1)"
        proof (cases "ty1 = ty \<and> i1 = i")
          case True
          then show ?thesis using p by auto
        next
          case False
          with a1 have "i1 < length (agents (orch s) ty1) \<and> agent_status (agents (orch s) ty1 ! i1) = BUSY"
            by (auto simp: ag nth_agents_upd split: if_splits)
          with assms obtain tid where t: "pcs s tid = Some (AwaitExec ty1 i1)"
            unfolding pool_inv_def inv_busy_def by blast
          with True have "tid \<noteq> tid0" using \<open>pcs s tid0 = Some Start\<close> by auto
          with t show ?thesis by auto
        qed
      qed
      from dom own bsy st show ?thesis by (simp add: pool_inv_def)
    qed
  qed
qed

lemma pool_inv_ExecDone:
  assumes "pool_inv s"
  shows "pool_inv (step limit s (ExecDone tid0 mo))"
proof (cases "\<exists>ty i. pcs s tid0 = Some (AwaitExec ty i)")
  case False
  with assms show ?thesis
    by (auto split: option.splits pc.splits)
next
  case True
  then obtain ty i where pc0: "pcs s tid0 = Some (AwaitExec ty i)" by blast
  obtain orc' p where ped: "process_exec_done limit (orch s) tid0 ty i mo = (orc', p)"
    by (cases "process_exec_done limit (orch s) tid0 ty i mo")
  let ?s' = "s\<lparr>orch := orc', pcs := (pcs s)(tid0 \<mapsto> p)\<rparr>"
  let ?a' = "fst (execute_task_resume (agents (orch s) ty ! i) mo)"
  have st: "step limit s (ExecDone tid0 mo) = ?s'"
    using pc0 ped by simp
  have ag: "agents orc' = (agents (orch s))(ty := (agents (orch s) ty)[i := ?a'])"
    using agents_process_exec_done [of limit "orch s" tid0 ty i mo] ped by simp
  have nb: "agent_status ?a' \<noteq> BUSY"
    by (simp add: status_execute_task_resume split: model_outcome.splits)
  have pne: "p \<noteq> AwaitExec ty1 i1" for ty1 i1
    using pc_process_exec_done [of limit "orch s" tid0 ty i mo ty1 i1] ped by simp
  have dm: "(tasks orc' x = None) = (tasks (orch s) x = None)" for x
    using dom_process_exec_done [of limit "orch s" tid0 ty i mo x] ped by simp
  from assms pc0 have len: "i < length (agents (orch s) ty)"
    and uniq: "\<forall>tid'. pcs s tid' = Some (AwaitExec ty i) \<longrightarrow> tid' = tid0"
    unfolding pool_inv_def inv_owner_def by blast+
  have dom: "inv_dom ?s'"
    using assms pc0 dm unfolding pool_inv_def inv_dom_def by auto
  have own: "inv_owner ?s'"
    unfolding inv_owner_def
  proof (intro allI impI)
    fix tid ty1 i1
    assume a1: "pcs ?s' tid = Some (AwaitExec ty1 i1)"
    then have ne0: "tid \<noteq> tid0" using pne by auto
    with a1 have old: "pcs s tid = Some (AwaitExec ty1 i1)" by simp
    with uniq ne0 have ne: "\<not> (ty1 = ty \<and> i1 = i)" by auto
    from assms old have o: "i1 < length (agents (orch s) ty1)"
      "agent_status (agents (orch s) ty1 ! i1) \<noteq> IDLE"
      "\<forall>tid'. pcs s tid' = Some (AwaitExec ty1 i1) \<longrightarrow> tid' = tid"
      unfolding pool_inv_def inv_owner_def by blast+
    show "i1 < length (agents (orch ?s') ty1) \<and>
          agent_status (agents (orch ?s') ty1 ! i1) \<noteq> IDLE \<and>
          (\<forall>tid'. pcs ?s' tid' = Some (AwaitExec ty1 i1) \<longrightarrow> tid' = tid)"
      using o ne pne by (auto simp: ag nth_agents_upd)
  qed
  have bsy: "inv_busy ?s'"
    unfolding inv_busy_def
  proof (intro allI impI)
    fix ty1 i1
    assume a1: "i1 < length (agents (orch ?s') ty1) \<and> agent_status (agents (orch ?s') ty1 ! i1) = BUSY"
    have ne: "\<not> (ty1 = ty \<and> i1 = i)"
      using a1 nb len by (auto simp: ag nth_agents_upd)
    with a1 have "i1 < length (agents (orch s) ty1) \<and> agent_status (agents (orch s) ty1 ! i1) = BUSY"
      by (auto simp: ag nth_agents_upd split: if_splits)
    with assms obtain tid where t: "pcs s tid = Some (AwaitExec ty1 i1)"
      unfolding pool_inv_def inv_busy_def by blast
    with ne pc0 have "tid \<noteq> tid0" by auto
    with t show "\<exists>tid. pcs ?s' tid = Some (AwaitExec ty1 i1)" by auto
  qed
  from dom own bsy st show ?thesis by (simp add: pool_inv_def)
qed

lemma pool_inv_ValidateDone:
  assumes "pool_inv s"
  shows "pool_inv (step limit s (ValidateDone tid0 vo))"
proof (cases "\<exists>ty i r. pcs s tid0 = Some (AwaitValidate ty i r)")
  case False
  with assms show ?thesis
    by (auto split: option.splits pc.splits)
next
  case True
  then obtain ty i r where pc0: "pcs s tid0 = Some (AwaitValidate ty i r)" by blast
  let ?orc' = "process_validate_done (orch s) tid0 ty i r vo"
  let ?s' = "s\<lparr>orch := ?orc', pcs := (pcs s)(tid0 \<mapsto> Done)\<rparr>"
  let ?a' = "fst (validate_result_resume (agents (orch s) ty ! i) vo)"
  have st: "step limit s (ValidateDone tid0 vo) = ?s'"
    using pc0 by simp
  have ag: "agents ?orc' = (agents (orch s))(ty := (agents (orch s) ty)[i := ?a'])"
    by (rule agents_process_validate_done)
  have sa: "agent_status ?a' = ERROR \<or> agent_status ?a' = agent_status (agents (orch s) ty ! i)"
    by (simp add: status_validate_result_resume split: verify_outcome.splits)
  have dom: "inv_dom ?s'"
    using assms pc0 unfolding pool_inv_def inv_dom_def by auto
  have own: "inv_owner ?s'"
    unfolding inv_owner_def
  proof (intro allI impI)
    fix tid ty1 i1
    assume a1: "pcs ?s' tid = Some (AwaitExec ty1 i1)"
    then have ne0: "tid \<noteq> tid0" by auto
    with a1 have old: "pcs s tid = Some (AwaitExec ty1 i1)" by simp
    from assms old have o: "i1 < length (agents (orch s) ty1)"
      "agent_status (agents (orch s) ty1 ! i1) \<noteq> IDLE"
      "\<forall>tid'. pcs s tid' = Some (AwaitExec ty1 i1) \<longrightarrow> tid' = tid"
      unfolding pool_inv_def inv_owner_def by blast+
    show "i1 < length (agents (orch ?s') ty1) \<and>
          agent_status (agents (orch ?s') ty1 ! i1) \<noteq> IDLE \<and>
          (\<forall>tid'. pcs ?s' tid' = Some (AwaitExec ty1 i1) \<longrightarrow> tid' = tid)"
      using o sa by (cases "ty1 = ty \<and> i1 = i") (auto simp: ag nth_agents_upd)
  qed
  have bsy: "inv_busy ?s'"
    unfolding inv_busy_def
  proof (intro allI impI)
    fix ty1 i1
    assume a1: "i1 < length (agents (orch ?s') ty1) \<and> agent_status (agents (orch ?s') ty1 ! i1) = BUSY"
    with sa have "i1 < length (agents (orch s) ty1) \<and> agent_status (agents (orch s) ty1 ! i1) = BUSY"
      by (cases "ty1 = ty \<and> i1 = i") (auto simp: ag nth_agents_upd split: if_splits)
    with assms obtain tid where t: "pcs s tid = Some (AwaitExec ty1 i1)"
      unfolding pool_inv_def inv_busy_def by blast
    with pc0 have "tid \<noteq> tid0" by auto
    with t show "\<exists>tid. pcs ?s' tid = Some (AwaitExec ty1 i1)" by auto
  qed
  from dom own bsy st show ?thesis by (simp add: pool_inv_def)
qed

lemma pool_inv_step:
  "pool_inv s \<Longrightarrow> pool_inv (step limit s e)"
  by (cases e) (simp_all only: pool_inv_Submit pool_inv_Cancel pool_inv_Begin pool_inv_ExecDone
      pool_inv_ValidateDone)

lemma pool_inv_run:
  "pool_inv s \<Longrightarrow> pool_inv (run limit s evs)"
  unfolding run_def by (induction evs arbitrary: s) (simp_all add: pool_inv_step)

lemma pool_inv_init:
  assumes "\<And>ty. list_all (\<lambda>a. agent_status a \<noteq> BUSY) (agents orc0 ty)"
  shows "pool_inv (System_init orc0)"
  using assms
  unfolding pool_inv_def inv_dom_def inv_owner_def inv_busy_def System_init_def
  by (auto simp: list_all_length)

lemma length_agents_step:
  "length (agents (orch (step limit s e)) ty) = length (agents (orch s) ty)"
proof (cases e)
  case (Submit tid0 ty0 prio0)
  then show ?thesis by (simp add: submit_task_def split: option.splits)
next
  case (Cancel tid0)
  then show ?thesis by (simp add: cancel_task_def split: option.splits)
next
  case (Begin tid0)
  show ?thesis
  proof (cases "pcs s tid0 = Some Start")
    case False
    with Begin show ?thesis by (auto split: option.splits pc.splits)
  next
    case True
    show ?thesis
    proof (cases "process_start limit (orch s) tid0")
      case None
      with Begin True show ?thesis by simp
    next
      case (Some sp)
      obtain orc' p where sp: "sp = (orc', p)" by (cases sp)
      from process_start_cases [OF Some [unfolded sp]]
      have "length (agents orc' ty) = length (agents (orch s) ty)"
        by (auto simp: length_agents_upd)
      with Begin True Some sp show ?thesis by simp
    qed
  qed
next
  case (ExecDone tid0 mo)
  show ?thesis
  proof (cases "\<exists>ty0 i. pcs s tid0 = Some (AwaitExec ty0 i)")
    case False
    with ExecDone show ?thesis by (auto split: option.splits pc.splits)
  next
    case True
    then obtain ty0 i where pc0: "pcs s tid0 = Some (AwaitExec ty0 i)" by blast
    have "length (agents (fst (process_exec_done limit (orch s) tid0 ty0 i mo)) ty) =
        length (agents (orch s) ty)"
      by (simp only: agents_process_exec_done length_agents_upd)
    with ExecDone pc0 show ?thesis by (auto split: prod.splits)
  qed
next
  case (ValidateDone tid0 vo)
  show ?thesis
  proof (cases "\<exists>ty0 i r. pcs s tid0 = Some (AwaitValidate ty0 i r)")
    case False
    with ValidateDone show ?thesis by (auto split: option.splits pc.splits)
  next
    case True
    then obtain ty0 i r where pc0: "pcs s tid0 = Some (AwaitValidate ty0 i r)" by blast
    have "length (agents (process_validate_done (orch s) tid0 ty0 i r vo) ty) =
        length (agents (orch s) ty)"
      by (simp only: agents_process_validate_done length_agents_upd)
    with ValidateDone pc0 show ?thesis by simp
  qed
qed

lemma pc_process_exec_done_validate:
  "snd (process_exec_done limit orc tid ty i mo) = AwaitValidate ty1 i1 r \<Longrightarrow> ty1 = ty \<and> i1 = i"
  by (simp add: process_exec_done_def pc_after_execute split: prod.splits if_splits)

lemma pc_process_start_validate:
  "process_start limit orc tid = Some (orc', p) \<Longrightarrow> p \<noteq> AwaitValidate ty i r"
  using process_start_cases [of limit orc tid orc' p] by auto

lemma inv_range_step:
  assumes "pool_inv s" and "inv_range s"
  shows "inv_range (step limit s e)"
  unfolding inv_range_def
proof (intro allI impI)
  fix tid ty i r
  assume a: "pcs (step limit s e) tid = Some (AwaitValidate ty i r)"
  have "i < length (agents (orch s) ty)"
  proof (cases "pcs s tid = Some (AwaitValidate ty i r)")
    case True
    with assms(2) show ?thesis unfolding inv_range_def by blast
  next
    case False
    show ?thesis
    proof (cases e)
      case (Submit tid0 ty0 prio0)
      with a False show ?thesis by (auto split: option.splits if_splits)
    next
      case (Cancel tid0)
      with a False show ?thesis by simp
    next
      case (Begin tid0)
      with a False show ?thesis
        by (auto split: option.splits pc.splits if_splits dest: pc_process_start_validate)
    next
      case (ExecDone tid0 mo)
      show ?thesis
      proof (cases "\<exists>ty0 i0. pcs s tid0 = Some (AwaitExec ty0 i0)")
        case nex: False
        with ExecDone a False show ?thesis by (auto split: option.splits pc.splits)
      next
        case True
        then obtain ty0 i0 where pc0: "pcs s tid0 = Some (AwaitExec ty0 i0)" by blast
        with ExecDone a False have "tid = tid0" and
          "snd (process_exec_done limit (orch s) tid0 ty0 i0 mo) = AwaitValidate ty i r"
          by (auto split: prod.splits if_splits)
        then have "ty = ty0" "i = i0" using pc_process_exec_done_validate by blast+
        with assms(1) pc0 show ?thesis unfolding pool_inv_def inv_owner_def by blast
      qed
    next
      case (ValidateDone tid0 vo)
      with a False show ?thesis by (auto split: option.splits pc.splits if_splits)
    qed
  qed
  then show "i < length (agents (orch (step limit s e)) ty)"
    by (simp add: length_agents_step)
qed

lemma invs_run:
  "pool_inv s \<Longrightarrow> inv_range s \<Longrightarrow> pool_inv (run limit s evs) \<and> inv_range (run limit s evs)"
  unfolding run_def
  by (induction evs arbitrary: s) (simp_all add: pool_inv_step inv_range_step)

lemma inv_range_init: "inv_range (System_init orc0)"
  by (simp add: inv_range_def System_init_def)

text \<open>
  C5, as stated, fails on the thrown-error path: when the model call raises,
  \<^verbatim>\<open>handle_error\<close> leaves the agent in status \<^verbatim>\<open>error\<close>, not idle, after the
  lifecycle has returned.
\<close>

theorem agent_error_after_exception_counterexample:
  "get_available_agent (fst (submit_task ready ''t1'' CODE MEDIUM)) CODE =
     Some (0, BaseAgent_init ''coding-agent-1'' CODING) \<and>
   map_option (\<lambda>orc. agent_status (agents orc CODE ! 0))
     (process_task 5 (fst (submit_task ready ''t1'' CODE MEDIUM)) ''t1''
        (Raises ''connection reset'') (VResponds 50 True)) = Some ERROR \<and>
   ERROR \<noteq> IDLE"
  by (simp add: scenario_defs orchestrator_defs agent_defs)

text \<open>
  C5, amended. In every interleaving of lifecycles and cancellations that starts from a
  pool with no busy agent: while a lifecycle is suspended in the model call of
  \<^verbatim>\<open>execute_task\<close> on an agent, that agent is not idle,
  \<^verbatim>\<open>_get_available_agent\<close> does not return it, and no other lifecycle is suspended
  in \<^verbatim>\<open>execute_task\<close> on it. When the model call returns, \<^verbatim>\<open>execute_task\<close> sets
  the agent idle (\<^verbatim>\<open>cleanup_task\<close>); when it raises, the agent is set to status
  \<^verbatim>\<open>error\<close> (\<^verbatim>\<open>handle_error\<close>), not idle; either way the lifecycle is no longer
  suspended in \<^verbatim>\<open>execute_task\<close>. A \<^verbatim>\<open>validate_result\<close> that raises sets the agent
  to status \<^verbatim>\<open>error\<close>, one that returns leaves the agent's status as it is. An agent
  is busy only while some lifecycle is suspended in \<^verbatim>\<open>execute_task\<close> on it.
\<close>

theorem agent_held_then_released:
  assumes "\<forall>ty. list_all (\<lambda>a. agent_status a \<noteq> BUSY) (agents orc0 ty)"
    and "s = run limit (System_init orc0) evs"
  shows
    "(pcs s tid = Some (AwaitExec ty i) \<longrightarrow>
        agent_status (agents (orch s) ty ! i) \<noteq> IDLE \<and>
        get_available_agent (orch s) ty \<noteq> Some (i, b) \<and>
        (\<forall>tid'. pcs s tid' = Some (AwaitExec ty i) \<longrightarrow> tid' = tid) \<and>
        agent_status (agents (orch (step limit s (ExecDone tid mo))) ty ! i) =
          (case mo of Raises e \<Rightarrow> ERROR | Responds n r \<Rightarrow> IDLE) \<and>
        pcs (step limit s (ExecDone tid mo)) tid \<noteq> Some (AwaitExec ty i)) \<and>
     (pcs s tid = Some (AwaitValidate ty i r) \<longrightarrow>
        agent_status (agents (orch (step limit s (ValidateDone tid vo))) ty ! i) =
          (case vo of
             VRaises e \<Rightarrow> ERROR
           | VResponds n v \<Rightarrow> agent_status (agents (orch s) ty ! i))) \<and>
     (i < length (agents (orch s) ty) \<and> agent_status (agents (orch s) ty ! i) = BUSY \<longrightarrow>
        (\<exists>tid'. pcs s tid' = Some (AwaitExec ty i)))"
proof -
  have "pool_inv (System_init orc0)"
    using assms(1) by (intro pool_inv_init) simp
  then have inv: "pool_inv s" and rng: "inv_range s"
    using invs_run [OF _ inv_range_init, of orc0 limit evs] assms(2) by simp_all
  have exec: "agent_status (agents (orch s) ty ! i) \<noteq> IDLE \<and>
        get_available_agent (orch s) ty \<noteq> Some (i, b) \<and>
        (\<forall>tid'. pcs s tid' = Some (AwaitExec ty i) \<longrightarrow> tid' = tid) \<and>
        agent_status (agents (orch (step limit s (ExecDone tid mo))) ty ! i) =
          (case mo of Raises e \<Rightarrow> ERROR | Responds n r \<Rightarrow> IDLE) \<and>
        pcs (step limit s (ExecDone tid mo)) tid \<noteq> Some (AwaitExec ty i)"
    if pc0: "pcs s tid = Some (AwaitExec ty i)"
  proof -
    from inv pc0 have len: "i < length (agents (orch s) ty)"
      and ni: "agent_status (agents (orch s) ty ! i) \<noteq> IDLE"
      and uq: "\<forall>tid'. pcs s tid' = Some (AwaitExec ty i) \<longrightarrow> tid' = tid"
      unfolding pool_inv_def inv_owner_def by blast+
    obtain orc' p where ped: "process_exec_done limit (orch s) tid ty i mo = (orc', p)"
      by (cases "process_exec_done limit (orch s) tid ty i mo")
    have ag: "agents orc' = (agents (orch s))(ty := (agents (orch s) ty)
        [i := fst (execute_task_resume (agents (orch s) ty ! i) mo)])"
      using agents_process_exec_done [of limit "orch s" tid ty i mo] ped by simp
    have pne: "p \<noteq> AwaitExec ty i"
      using pc_process_exec_done [of limit "orch s" tid ty i mo ty i] ped by simp
    have st: "step limit s (ExecDone tid mo) = s\<lparr>orch := orc', pcs := (pcs s)(tid \<mapsto> p)\<rparr>"
      using pc0 ped by simp
    have "agent_status (agents (orch (step limit s (ExecDone tid mo))) ty ! i) =
          (case mo of Raises e \<Rightarrow> ERROR | Responds n r \<Rightarrow> IDLE)"
      unfolding st using len by (simp add: ag status_execute_task_resume)
    moreover have "pcs (step limit s (ExecDone tid mo)) tid \<noteq> Some (AwaitExec ty i)"
      unfolding st using pne by simp
    moreover have "get_available_agent (orch s) ty \<noteq> Some (i, b)"
      using ni by (rule not_idle_not_available)
    ultimately show ?thesis using ni uq by blast
  qed
  have val: "agent_status (agents (orch (step limit s (ValidateDone tid vo))) ty ! i) =
          (case vo of
             VRaises e \<Rightarrow> ERROR
           | VResponds n v \<Rightarrow> agent_status (agents (orch s) ty ! i))"
    if pc0: "pcs s tid = Some (AwaitValidate ty i r)"
  proof -
    from rng pc0 have len: "i < length (agents (orch s) ty)"
      unfolding inv_range_def by blast
    show ?thesis
      using len pc0 by (simp add: agents_process_validate_done status_validate_result_resume)
  qed
  have bsy: "\<exists>tid'. pcs s tid' = Some (AwaitExec ty i)"
    if "i < length (agents (orch s) ty) \<and> agent_status (agents (orch s) ty ! i) = BUSY"
    using inv that unfolding pool_inv_def inv_busy_def by blast
  from exec val bsy show ?thesis by blast
qed

theorem agent_held_then_released_witness:
  "(\<forall>ty. list_all (\<lambda>a. agent_status a \<noteq> BUSY) (agents ready ty)) \<and>
   pcs (run 5 (System_init ready) [Submit ''t1'' CODE MEDIUM, Begin ''t1'']) ''t1'' =
     Some (AwaitExec CODE 0) \<and>
   agent_status (agents (orch (run 5 (System_init ready) [Submit ''t1'' CODE MEDIUM, Begin ''t1''])) CODE ! 0) = BUSY \<and>
   get_available_agent (orch (run 5 (System_init ready) [Submit ''t1'' CODE MEDIUM, Begin ''t1''])) CODE = None \<and>
   agent_status (agents (orch (step 5 (run 5 (System_init ready) [Submit ''t1'' CODE MEDIUM, Begin ''t1''])
       (ExecDone ''t1'' (Responds 100 (code_result 2))))) CODE ! 0) = IDLE \<and>
   pcs (step 5 (run 5 (System_init ready) [Submit ''t1'' CODE MEDIUM, Begin ''t1''])
       (ExecDone ''t1'' (Responds 100 (code_result 2)))) ''t1'' =
     Some (AwaitValidate CODE 0 (code_result 2))"
proof -
  let ?s = "run 5 (System_init ready) [Submit ''t1'' CODE MEDIUM, Begin ''t1'']"
  have h1: "\<forall>ty. list_all (\<lambda>a. agent_status a \<noteq> BUSY) (agents ready ty)"
  proof
    fix ty show "list_all (\<lambda>a. agent_status a \<noteq> BUSY) (agents ready ty)"
      by (cases ty) (simp_all add: scenario_defs orchestrator_defs agent_defs)
  qed
  have h2: "pcs ?s ''t1'' = Some (AwaitExec CODE 0)"
    by (simp add: scenario_defs orchestrator_defs agent_defs)
  have h3: "agent_status (agents (orch ?s) CODE ! 0) = BUSY"
    by (simp add: scenario_defs orchestrator_defs agent_defs)
  have h4: "get_available_agent (orch ?s) CODE = None"
    by (simp add: scenario_defs orchestrator_defs agent_defs)
  have h5: "pcs (step 5 ?s (ExecDone ''t1'' (Responds 100 (code_result 2)))) ''t1'' =
     Some (AwaitValidate CODE 0 (code_result 2))"
    by (simp add: scenario_defs orchestrator_defs agent_defs)
  from agent_held_then_released [OF h1 refl, of 5 "[Submit ''t1'' CODE MEDIUM, Begin ''t1'']"
      "''t1''" CODE 0 _ "Responds 100 (code_result 2)"] h2
  have "agent_status (agents (orch (step 5 ?s (ExecDone ''t1'' (Responds 100 (code_result 2))))) CODE ! 0) = IDLE"
    by simp
  with h1 h2 h3 h4 h5 show ?thesis by blast
qed

text \<open>
  C10, as stated, fails: \<^verbatim>\<open>cleanup_task\<close> sets the status to idle whatever it was.
  Task t1 executes and is suspended in validation with its agent already idle again;
  task t2 acquires the same agent; t1's validation raises and puts the agent in status
  \<^verbatim>\<open>error\<close>; t2's execution returns and \<^verbatim>\<open>cleanup_task\<close> puts it back to idle,
  where selection returns it again.
\<close>

theorem error_agent_reselected_counterexample:
  "agent_status (agents (orch (run 5 (System_init ready)
      [Submit ''t1'' CODE MEDIUM, Begin ''t1'', ExecDone ''t1'' (Responds 100 (code_result 1)),
       Submit ''t2'' CODE MEDIUM, Begin ''t2'',
       ValidateDone ''t1'' (VRaises ''timeout'')])) CODE ! 0) = ERROR \<and>
   agent_status (agents (orch (run 5 (System_init ready)
      [Submit ''t1'' CODE MEDIUM, Begin ''t1'', ExecDone ''t1'' (Responds 100 (code_result 1)),
       Submit ''t2'' CODE MEDIUM, Begin ''t2'',
       ValidateDone ''t1'' (VRaises ''timeout''),
       ExecDone ''t2'' (Responds 100 (code_result 1))])) CODE ! 0) = IDLE \<and>
   map_option fst (get_available_agent (orch (run 5 (System_init ready)
      [Submit ''t1'' CODE MEDIUM, Begin ''t1'', ExecDone ''t1'' (Responds 100 (code_result 1)),
       Submit ''t2'' CODE MEDIUM, Begin ''t2'',
       ValidateDone ''t1'' (VRaises ''timeout''),
       ExecDone ''t2'' (Responds 100 (code_result 1))])) CODE) = Some 0"
  by (simp add: scenario_defs orchestrator_defs agent_defs)

section \<open>Cancellation and the lifecycle\<close>

text \<open>
  C6 at its failing input: a task is submitted and cancelled before its lifecycle
  starts (\<^verbatim>\<open>cancel_task\<close> returns true and the task is failed with the reason
  \<^verbatim>\<open>Task cancelled by user\<close>). The lifecycle then runs all the same: the task is
  \<^verbatim>\<open>in_progress\<close> with an error set, and ends \<^verbatim>\<open>completed\<close> with both a result
  and the error.
\<close>

theorem cancelled_task_completes:
  "map_option (\<lambda>t. (status t, task_error t))
     (tasks (orch (run 5 (System_init ready)
        [Submit ''t1'' CODE MEDIUM, Cancel ''t1''])) ''t1'') =
     Some (FAILED, Some ''Task cancelled by user'') \<and>
   map_option (\<lambda>t. (status t, result t, task_error t))
     (tasks (orch (run 5 (System_init ready)
        [Submit ''t1'' CODE MEDIUM, Cancel ''t1'', Begin ''t1''])) ''t1'') =
     Some (IN_PROGRESS, None, Some ''Task cancelled by user'') \<and>
   map_option (\<lambda>t. (status t, result t, task_error t))
     (tasks (orch (run 5 (System_init ready)
        [Submit ''t1'' CODE MEDIUM, Cancel ''t1'', Begin ''t1'',
         ExecDone ''t1'' (Responds 100 (code_result 2)),
         ValidateDone ''t1'' (VResponds 50 True)])) ''t1'') =
     Some (COMPLETED, Some (code_result 2), Some ''Task cancelled by user'')"
  by (simp add: scenario_defs orchestrator_defs agent_defs)

section \<open>Agents in error\<close>

lemma process_task_keeps_error:
  assumes "tasks orc tid = Some t"
  shows "\<exists>orc'. process_task limit orc tid mo vo = Some orc' \<and>
           (\<forall>ty j. j < length (agents orc ty) \<and> agent_status (agents orc ty ! j) = ERROR \<longrightarrow>
                    agent_status (agents orc' ty ! j) = ERROR)"
proof (cases "get_available_agent orc (task_type t)")
  case None
  from process_task_no_agent [OF assms None, of limit mo vo] show ?thesis by simp
next
  case (Some ia)
  obtain i a where ia: "ia = (i, a)" by (cases ia)
  note sel = Some [unfolded ia]
  note acq = get_available_agent_Some [OF sel]
  from process_task_agents [OF assms sel, of limit mo vo]
  obtain orc' where fin: "process_task limit orc tid mo vo = Some orc'"
    and ag: "agents orc' = (agents orc)(task_type t :=
               (agents orc (task_type t))[i := agents orc' (task_type t) ! i])"
    by blast
  have "agent_status (agents orc' ty ! j) = ERROR"
    if "j < length (agents orc ty)" and "agent_status (agents orc ty ! j) = ERROR" for ty j
  proof -
    have ne: "\<not> (ty = task_type t \<and> j = i)"
      using that(2) acq(2,3) by auto
    have "agents orc' ty ! j = agents orc ty ! j"
    proof (cases "ty = task_type t")
      case True
      with ne have "j \<noteq> i" by simp
      then have "((agents orc (task_type t))[i := agents orc' (task_type t) ! i]) ! j =
          agents orc (task_type t) ! j" by simp
      with True ag show ?thesis by (metis fun_upd_same)
    next
      case False
      with ag show ?thesis by (metis fun_upd_other)
    qed
    with that(2) show ?thesis by simp
  qed
  with fin show ?thesis by blast
qed

text \<open>
  C10, amended. An exception inside \<^verbatim>\<open>execute_task\<close> or \<^verbatim>\<open>validate_result\<close>
  sets the agent's status to \<^verbatim>\<open>error\<close>; selection never returns an agent whose
  status is \<^verbatim>\<open>error\<close>; a lifecycle that runs with no other lifecycle in between
  leaves every agent that is in \<^verbatim>\<open>error\<close> in \<^verbatim>\<open>error\<close>; and a task whose type
  has all its agents in \<^verbatim>\<open>error\<close> when its lifecycle starts ends failed with the
  reason \<^verbatim>\<open>No available agent found\<close>, the pool untouched.
\<close>

theorem error_agent_not_selected:
  assumes "tasks orc tid = Some t"
  shows "agent_status (fst (execute_task_resume a (Raises e))) = ERROR \<and>
         agent_status (fst (validate_result_resume a (VRaises e))) = ERROR \<and>
         (agent_status (agents orc ty ! j) = ERROR \<longrightarrow> get_available_agent orc ty \<noteq> Some (j, b)) \<and>
         (\<exists>orc'. process_task limit orc tid mo vo = Some orc' \<and>
            (\<forall>ty j. j < length (agents orc ty) \<and> agent_status (agents orc ty ! j) = ERROR \<longrightarrow>
                     agent_status (agents orc' ty ! j) = ERROR) \<and>
            (list_all (\<lambda>a. agent_status a = ERROR) (agents orc (task_type t)) \<longrightarrow>
               agents orc' = agents orc \<and>
               tasks orc' tid =
                 Some (t\<lparr>status := FAILED, task_error := Some ''No available agent found''\<rparr>)))"
proof (intro conjI)
  show "agent_status (fst (execute_task_resume a (Raises e))) = ERROR"
    by (simp add: execute_task_resume_def handle_error_def agent_update_status_def)
  show "agent_status (fst (validate_result_resume a (VRaises e))) = ERROR"
    by (simp add: validate_result_resume_def handle_error_def agent_update_status_def)
  show "agent_status (agents orc ty ! j) = ERROR \<longrightarrow> get_available_agent orc ty \<noteq> Some (j, b)"
    using not_idle_not_available [of orc ty j b] by simp
  from process_task_keeps_error [OF assms, of limit mo vo]
  obtain orc' where fin: "process_task limit orc tid mo vo = Some orc'"
    and keep: "\<forall>ty j. j < length (agents orc ty) \<and> agent_status (agents orc ty ! j) = ERROR \<longrightarrow>
                     agent_status (agents orc' ty ! j) = ERROR"
    by blast
  have "agents orc' = agents orc \<and>
        tasks orc' tid = Some (t\<lparr>status := FAILED, task_error := Some ''No available agent found''\<rparr>)"
    if all: "list_all (\<lambda>a. agent_status a = ERROR) (agents orc (task_type t))"
  proof -
    from all have "\<forall>a\<in>set (agents orc (task_type t)). agent_status a \<noteq> IDLE"
      by (auto simp: list_all_iff)
    then have "get_available_agent orc (task_type t) = None"
      by (simp add: get_available_agent_def first_idle_None)
    from process_task_no_agent [OF assms this, of limit mo vo] fin
    have "orc' = fail_task orc tid (Some ''No available agent found'')" by simp
    then show ?thesis using assms by (simp add: fail_task_def update_status_def)
  qed
  with fin keep
  show "\<exists>orc'. process_task limit orc tid mo vo = Some orc' \<and>
            (\<forall>ty j. j < length (agents orc ty) \<and> agent_status (agents orc ty ! j) = ERROR \<longrightarrow>
                     agent_status (agents orc' ty ! j) = ERROR) \<and>
            (list_all (\<lambda>a. agent_status a = ERROR) (agents orc (task_type t)) \<longrightarrow>
               agents orc' = agents orc \<and>
               tasks orc' tid =
                 Some (t\<lparr>status := FAILED, task_error := Some ''No available agent found''\<rparr>))"
    by blast
qed

theorem error_agent_not_selected_witness:
  "tasks (fst (submit_task (set_agent ready CODE 0 (handle_error (BaseAgent_init ''coding-agent-1'' CODING)))
            ''t2'' CODE MEDIUM)) ''t2'' = Some (TaskManager_init ''t2'' CODE MEDIUM) \<and>
   agent_status (agents (fst (submit_task (set_agent ready CODE 0 (handle_error (BaseAgent_init ''coding-agent-1'' CODING)))
            ''t2'' CODE MEDIUM)) CODE ! 0) = ERROR \<and>
   list_all (\<lambda>a. agent_status a = ERROR)
     (agents (fst (submit_task (set_agent ready CODE 0 (handle_error (BaseAgent_init ''coding-agent-1'' CODING)))
            ''t2'' CODE MEDIUM)) (task_type (TaskManager_init ''t2'' CODE MEDIUM))) \<and>
   get_available_agent (fst (submit_task (set_agent ready CODE 0 (handle_error (BaseAgent_init ''coding-agent-1'' CODING)))
            ''t2'' CODE MEDIUM)) CODE = None \<and>
   (\<exists>orc'. process_task 5 (fst (submit_task (set_agent ready CODE 0 (handle_error (BaseAgent_init ''coding-agent-1'' CODING)))
            ''t2'' CODE MEDIUM)) ''t2'' (Responds 100 (code_result 1)) (VResponds 50 True) = Some orc' \<and>
      agent_status (agents orc' CODE ! 0) = ERROR \<and>
      map_option (\<lambda>t. (status t, task_error t)) (tasks orc' ''t2'') =
        Some (FAILED, Some ''No available agent found''))"
proof -
  let ?orc = "fst (submit_task (set_agent ready CODE 0 (handle_error (BaseAgent_init ''coding-agent-1'' CODING)))
            ''t2'' CODE MEDIUM)"
  let ?t = "TaskManager_init ''t2'' CODE MEDIUM"
  have h1: "tasks ?orc ''t2'' = Some ?t" by (simp add: submit_task_def)
  have ty: "task_type ?t = CODE" by (simp add: TaskManager_init_def)
  have ags: "agents ?orc CODE = [handle_error (BaseAgent_init ''coding-agent-1'' CODING)]"
    by (simp add: scenario_defs orchestrator_defs)
  have st: "agent_status (handle_error (BaseAgent_init ''coding-agent-1'' CODING)) = ERROR"
    by (simp add: agent_defs)
  have h2: "agent_status (agents ?orc CODE ! 0) = ERROR" by (simp add: ags st)
  have h3: "list_all (\<lambda>a. agent_status a = ERROR) (agents ?orc (task_type ?t))"
    by (simp add: ty ags st)
  have h4: "get_available_agent ?orc CODE = None"
    by (simp add: get_available_agent_def ags st)
  have len: "0 < length (agents ?orc CODE)" by (simp add: ags)
  from error_agent_not_selected [OF h1, of _ _ CODE 0 _ 5 "Responds 100 (code_result 1)" "VResponds 50 True"]
  obtain orc' where fin: "process_task 5 ?orc ''t2'' (Responds 100 (code_result 1)) (VResponds 50 True) = Some orc'"
    and keep: "\<forall>ty j. j < length (agents ?orc ty) \<and> agent_status (agents ?orc ty ! j) = ERROR \<longrightarrow>
                     agent_status (agents orc' ty ! j) = ERROR"
    and none: "list_all (\<lambda>a. agent_status a = ERROR) (agents ?orc (task_type ?t)) \<longrightarrow>
               agents orc' = agents ?orc \<and>
               tasks orc' ''t2'' = Some (?t\<lparr>status := FAILED, task_error := Some ''No available agent found''\<rparr>)"
    by blast
  from keep len h2 have e: "agent_status (agents orc' CODE ! 0) = ERROR" by blast
  from none h3 have "tasks orc' ''t2'' = Some (?t\<lparr>status := FAILED, task_error := Some ''No available agent found''\<rparr>)"
    by blast
  then have m: "map_option (\<lambda>t. (status t, task_error t)) (tasks orc' ''t2'') =
        Some (FAILED, Some ''No available agent found'')" by simp
  from h1 h2 h3 h4 fin e m show ?thesis by blast
qed

section \<open>Status writes, cancellation and unknown identifiers\<close>

text \<open>
  C1 at its failing input. \<^verbatim>\<open>cancel_task\<close> leaves a task that is completed or
  failed as it is and returns false; the lifecycle has no such check. When the
  lifecycle of a task that is already completed or failed starts and an idle agent of
  its type exists, its first status write (line 160) sets the task to
  \<^verbatim>\<open>in_progress\<close> with progress 0.2. A task cancelled before its lifecycle starts
  is in that situation.
\<close>

theorem lifecycle_overwrites_terminal:
  assumes "tasks (orch s) tid = Some t"
    and "status t = COMPLETED \<or> status t = FAILED"
    and "pcs s tid = Some Start"
    and "get_available_agent (orch s) (task_type t) = Some (i, a)"
  shows "cancel_task (orch s) tid = (orch s, False) \<and>
         tasks (orch (step limit s (Begin tid))) tid =
           Some (t\<lparr>status := IN_PROGRESS, progress := 2 / 10\<rparr>) \<and>
         pcs (step limit s (Begin tid)) tid = Some (AwaitExec (task_type t) i)"
proof -
  have c: "cancel_task (orch s) tid = (orch s, False)"
    using assms(1,2) by (auto simp: cancel_task_def)
  have st: "step limit s (Begin tid) =
      s\<lparr>orch := set_agent (modify_task (orch s) tid (\<lambda>t. update_status t IN_PROGRESS (Some (2 / 10))))
             (task_type t) i (a\<lparr>current_task_id := Some tid, agent_status := BUSY\<rparr>),
        pcs := (pcs s)(tid \<mapsto> AwaitExec (task_type t) i)\<rparr>"
    using assms(3) process_start_acquired [OF assms(1,4), of limit] by simp
  have "tasks (orch (step limit s (Begin tid))) tid =
           Some (t\<lparr>status := IN_PROGRESS, progress := 2 / 10\<rparr>)"
    unfolding st using assms(1) by (simp add: modify_task_def update_status_def)
  moreover have "pcs (step limit s (Begin tid)) tid = Some (AwaitExec (task_type t) i)"
    unfolding st by simp
  ultimately show ?thesis using c by blast
qed

theorem lifecycle_overwrites_terminal_witness:
  "tasks (orch (run 5 (System_init ready) [Submit ''t1'' CODE MEDIUM, Cancel ''t1''])) ''t1'' =
     Some ((TaskManager_init ''t1'' CODE MEDIUM)\<lparr>status := FAILED,
             task_error := Some ''Task cancelled by user''\<rparr>) \<and>
   pcs (run 5 (System_init ready) [Submit ''t1'' CODE MEDIUM, Cancel ''t1'']) ''t1'' = Some Start \<and>
   get_available_agent (orch (run 5 (System_init ready) [Submit ''t1'' CODE MEDIUM, Cancel ''t1''])) CODE =
     Some (0, BaseAgent_init ''coding-agent-1'' CODING) \<and>
   tasks (orch (step 5 (run 5 (System_init ready) [Submit ''t1'' CODE MEDIUM, Cancel ''t1''])
       (Begin ''t1''))) ''t1'' =
     Some ((TaskManager_init ''t1'' CODE MEDIUM)\<lparr>status := IN_PROGRESS, progress := 2 / 10,
             task_error := Some ''Task cancelled by user''\<rparr>) \<and>
   map_option (\<lambda>t. (status t, result t, task_error t))
     (tasks (orch (run 5 (System_init ready)
        [Submit ''t1'' CODE MEDIUM, Cancel ''t1'', Begin ''t1'',
         ExecDone ''t1'' (Raises ''connection reset'')])) ''t1'') =
     Some (FAILED, None, Some ''connection reset'')"
proof -
  let ?s = "run 5 (System_init ready) [Submit ''t1'' CODE MEDIUM, Cancel ''t1'']"
  let ?t = "(TaskManager_init ''t1'' CODE MEDIUM)\<lparr>status := FAILED,
             task_error := Some ''Task cancelled by user''\<rparr>"
  have h1: "tasks (orch ?s) ''t1'' = Some ?t"
    by (simp add: scenario_defs orchestrator_defs agent_defs)
  have h2: "status ?t = COMPLETED \<or> status ?t = FAILED" by simp
  have h3: "pcs ?s ''t1'' = Some Start"
    by (simp add: scenario_defs orchestrator_defs agent_defs)
  have ty: "task_type ?t = CODE" by (simp add: TaskManager_init_def)
  have h4: "get_available_agent (orch ?s) (task_type ?t) = Some (0, BaseAgent_init ''coding-agent-1'' CODING)"
    unfolding ty by (simp add: scenario_defs orchestrator_defs agent_defs)
  have h5: "map_option (\<lambda>t. (status t, result t, task_error t))
     (tasks (orch (run 5 (System_init ready)
        [Submit ''t1'' CODE MEDIUM, Cancel ''t1'', Begin ''t1'',
         ExecDone ''t1'' (Raises ''connection reset'')])) ''t1'') =
     Some (FAILED, None, Some ''connection reset'')"
    by (simp add: scenario_defs orchestrator_defs agent_defs)
  from lifecycle_overwrites_terminal [OF h1 h2 h3 h4, of 5] h1 h3 h4 h5 show ?thesis
    by (simp add: ty TaskManager_init_def)
qed

text \<open>
  C7, as stated, fails for cancellation: \<^verbatim>\<open>cancel_task\<close> on an identifier that is not
  in the registry returns false; it raises nothing.
\<close>

theorem cancel_unknown_counterexample:
  "tasks Orchestrator_init ''no-such-task'' = None \<and>
   cancel_task Orchestrator_init ''no-such-task'' = (Orchestrator_init, False)"
  by (simp add: Orchestrator_init_def cancel_task_def)

text \<open>
  C7, amended. For an identifier that is not in the registry, \<^verbatim>\<open>get_task_status\<close>
  raises \<^verbatim>\<open>ValueError\<close> with the text \<^verbatim>\<open>Task not found\<close>, and \<^verbatim>\<open>cancel_task\<close>
  returns false and changes nothing.
\<close>

theorem unknown_task_id:
  assumes "tasks orc tid = None"
  shows "get_task_status orc tid = Inl (ValueError ''Task not found'') \<and>
         cancel_task orc tid = (orc, False)"
  using assms by (simp add: get_task_status_def cancel_task_def)

theorem unknown_task_id_witness:
  "tasks ready ''no-such-task'' = None \<and>
   get_task_status ready ''no-such-task'' = Inl (ValueError ''Task not found'') \<and>
   cancel_task ready ''no-such-task'' = (ready, False)"
proof -
  have h: "tasks ready ''no-such-task'' = None"
    by (simp add: ready_def initialize_def create_agent_def Orchestrator_init_def)
  from unknown_task_id [OF h] h show ?thesis by simp
qed

end
